theory Spec2Isabelle
  imports Complex_Main
begin

section \<open>Floating-point values\<close>

text \<open>
  The analyzer of \<^verbatim>\<open>src/utils/change_detection_real.py\<close> computes on NumPy
  \<^verbatim>\<open>float64\<close> arrays. A cell is a finite number, one of the two infinities, or NaN.
  The result of an operation on finite operands is the exact result passed through a
  rounding function \<open>rnd\<close>, a parameter of every definition below: \<open>rnd = Fin\<close> is
  exact arithmetic, and a rounding function may also overflow to an infinity.
  The sign of a zero is not represented (a zero divisor counts as \<open>+0.0\<close>).
\<close>

datatype fval = Fin real | PInf | NInf | NaN

type_synonym rounding = "real \<Rightarrow> fval"

fun is_fin :: "fval \<Rightarrow> bool" where
  "is_fin (Fin x) = True"
| "is_fin v = False"

fun is_neg :: "fval \<Rightarrow> bool" where
  "is_neg (Fin x) = (x < 0)"
| "is_neg NInf = True"
| "is_neg v = False"

definition signed_inf :: "bool \<Rightarrow> fval" where
  "signed_inf neg = (if neg then NInf else PInf)"

fun fneg :: "fval \<Rightarrow> fval" where
  "fneg (Fin x) = Fin (- x)"
| "fneg PInf = NInf"
| "fneg NInf = PInf"
| "fneg NaN = NaN"

fun fadd :: "rounding \<Rightarrow> fval \<Rightarrow> fval \<Rightarrow> fval" where
  "fadd rnd (Fin x) (Fin y) = rnd (x + y)"
| "fadd rnd NaN b = NaN"
| "fadd rnd a NaN = NaN"
| "fadd rnd PInf NInf = NaN"
| "fadd rnd NInf PInf = NaN"
| "fadd rnd PInf b = PInf"
| "fadd rnd NInf b = NInf"
| "fadd rnd a PInf = PInf"
| "fadd rnd a NInf = NInf"

definition fsub :: "rounding \<Rightarrow> fval \<Rightarrow> fval \<Rightarrow> fval" where
  "fsub rnd a b = fadd rnd a (fneg b)"

fun fmul :: "rounding \<Rightarrow> fval \<Rightarrow> fval \<Rightarrow> fval" where
  "fmul rnd (Fin x) (Fin y) = rnd (x * y)"
| "fmul rnd NaN b = NaN"
| "fmul rnd a NaN = NaN"
| "fmul rnd a b =
     (if a = Fin 0 \<or> b = Fin 0 then NaN else signed_inf (is_neg a \<noteq> is_neg b))"

fun fdiv :: "rounding \<Rightarrow> fval \<Rightarrow> fval \<Rightarrow> fval" where
  "fdiv rnd (Fin x) (Fin y) =
     (if y = 0 then (if x = 0 then NaN else signed_inf (x < 0)) else rnd (x / y))"
| "fdiv rnd NaN b = NaN"
| "fdiv rnd a NaN = NaN"
| "fdiv rnd (Fin x) b = Fin 0"
| "fdiv rnd a (Fin y) = signed_inf (is_neg a \<noteq> (y < 0))"
| "fdiv rnd a b = NaN"

fun fsqrt :: "rounding \<Rightarrow> fval \<Rightarrow> fval" where
  "fsqrt rnd (Fin x) = (if x < 0 then NaN else rnd (sqrt x))"
| "fsqrt rnd PInf = PInf"
| "fsqrt rnd v = NaN"

fun flt :: "fval \<Rightarrow> fval \<Rightarrow> bool" where
  "flt (Fin x) (Fin y) = (x < y)"
| "flt NaN b = False"
| "flt a NaN = False"
| "flt a NInf = False"
| "flt PInf b = False"
| "flt a b = True"

fun fle :: "fval \<Rightarrow> fval \<Rightarrow> bool" where
  "fle (Fin x) (Fin y) = (x \<le> y)"
| "fle NaN b = False"
| "fle a NaN = False"
| "fle NInf b = True"
| "fle a PInf = True"
| "fle a b = False"

text \<open>\<^verbatim>\<open>np.nan_to_num(x, nan=0.0, posinf=0.0, neginf=0.0)\<close> on one cell.\<close>

fun nan_to_num :: "fval \<Rightarrow> fval" where
  "nan_to_num (Fin x) = Fin x"
| "nan_to_num v = Fin 0"

section \<open>Rasters\<close>

text \<open>
  A raster is a two-dimensional array: its shape and its cells in row-major order.
  \<^verbatim>\<open>astype(float)\<close> is the identity on this representation (every integer dtype
  the bands arrive in converts exactly).
\<close>

record raster =
  nrows :: nat
  ncols :: nat
  cells :: "fval list"

datatype py_error = KeyError string | ValueError | IndexError | CvError

definition shape :: "raster \<Rightarrow> nat \<times> nat" where
  "shape a = (nrows a, ncols a)"

definition wf_raster :: "raster \<Rightarrow> bool" where
  "wf_raster a \<longleftrightarrow> length (cells a) = nrows a * ncols a"

definition cell_at :: "raster \<Rightarrow> nat \<Rightarrow> nat \<Rightarrow> fval" where
  "cell_at a i j = cells a ! (i * ncols a + j)"

definition mk_raster :: "nat \<Rightarrow> nat \<Rightarrow> (nat \<Rightarrow> nat \<Rightarrow> fval) \<Rightarrow> raster" where
  "mk_raster r c g =
     \<lparr>nrows = r, ncols = c, cells = concat (map (\<lambda>i. map (g i) [0..<c]) [0..<r])\<rparr>"

text \<open>NumPy broadcasting of one axis: equal lengths, or one of them is 1.\<close>

definition broadcast_dim :: "nat \<Rightarrow> nat \<Rightarrow> nat option" where
  "broadcast_dim m n =
     (if m = n then Some m else if m = 1 then Some n else if n = 1 then Some m else None)"

definition bcast_at :: "raster \<Rightarrow> nat \<Rightarrow> nat \<Rightarrow> fval" where
  "bcast_at a i j = cell_at a (if nrows a = 1 then 0 else i) (if ncols a = 1 then 0 else j)"

text \<open>An element-wise binary operator; shapes that do not broadcast raise ValueError.\<close>

definition arr_op :: "(fval \<Rightarrow> fval \<Rightarrow> fval) \<Rightarrow> raster \<Rightarrow> raster \<Rightarrow> py_error + raster" where
  "arr_op f a b =
     (case (broadcast_dim (nrows a) (nrows b), broadcast_dim (ncols a) (ncols b)) of
        (Some r, Some c) \<Rightarrow> Inr (mk_raster r c (\<lambda>i j. f (bcast_at a i j) (bcast_at b i j)))
      | _ \<Rightarrow> Inl ValueError)"

definition arr_map :: "(fval \<Rightarrow> fval) \<Rightarrow> raster \<Rightarrow> raster" where
  "arr_map f a = a\<lparr>cells := map f (cells a)\<rparr>"

definition bindE :: "'e + 'a \<Rightarrow> ('a \<Rightarrow> 'e + 'b) \<Rightarrow> 'e + 'b" where
  "bindE m f = (case m of Inl e \<Rightarrow> Inl e | Inr x \<Rightarrow> f x)"

section \<open>The spectral indices\<close>

definition calculate_ndvi :: "rounding \<Rightarrow> raster \<Rightarrow> raster \<Rightarrow> py_error + raster" where
  "calculate_ndvi rnd nir red =
     bindE (arr_op (fsub rnd) nir red) (\<lambda>num.
     bindE (arr_op (fadd rnd) nir red) (\<lambda>den.
     bindE (arr_op (fdiv rnd) num den) (\<lambda>ndvi.
     Inr (arr_map nan_to_num ndvi))))"

definition calculate_ndmi :: "rounding \<Rightarrow> raster \<Rightarrow> raster \<Rightarrow> py_error + raster" where
  "calculate_ndmi rnd nir swir =
     bindE (arr_op (fsub rnd) nir swir) (\<lambda>num.
     bindE (arr_op (fadd rnd) nir swir) (\<lambda>den.
     bindE (arr_op (fdiv rnd) num den) (\<lambda>ndmi.
     Inr (arr_map nan_to_num ndmi))))"

definition calculate_ndbi :: "rounding \<Rightarrow> raster \<Rightarrow> raster \<Rightarrow> py_error + raster" where
  "calculate_ndbi rnd swir nir =
     bindE (arr_op (fsub rnd) swir nir) (\<lambda>num.
     bindE (arr_op (fadd rnd) swir nir) (\<lambda>den.
     bindE (arr_op (fdiv rnd) num den) (\<lambda>ndbi.
     Inr (arr_map nan_to_num ndbi))))"

section \<open>Reductions and literals\<close>

text \<open>
  \<^verbatim>\<open>ndarray.min()\<close> and \<^verbatim>\<open>ndarray.max()\<close>: a NaN cell makes the result NaN,
  and a zero-size array raises ValueError.
\<close>

definition fmin2 :: "fval \<Rightarrow> fval \<Rightarrow> fval" where
  "fmin2 a b = (if a = NaN \<or> b = NaN then NaN else if fle a b then a else b)"

definition fmax2 :: "fval \<Rightarrow> fval \<Rightarrow> fval" where
  "fmax2 a b = (if a = NaN \<or> b = NaN then NaN else if fle a b then b else a)"

definition raster_min :: "raster \<Rightarrow> py_error + fval" where
  "raster_min a = (case cells a of [] \<Rightarrow> Inl ValueError | x # xs \<Rightarrow> Inr (fold fmin2 xs x))"

definition raster_max :: "raster \<Rightarrow> py_error + fval" where
  "raster_max a = (case cells a of [] \<Rightarrow> Inl ValueError | x # xs \<Rightarrow> Inr (fold fmax2 xs x))"

text \<open>\<^verbatim>\<open>ndarray.size\<close> and \<^verbatim>\<open>np.sum\<close> of a boolean mask.\<close>

definition size_of :: "raster \<Rightarrow> nat" where
  "size_of a = nrows a * ncols a"

definition count_where :: "(fval \<Rightarrow> bool) \<Rightarrow> raster \<Rightarrow> nat" where
  "count_where p a = length (filter p (cells a))"

text \<open>
  The float literals of the source, each the rounding of its decimal value.
\<close>

definition lit_1e_8 :: "rounding \<Rightarrow> fval" where
  "lit_1e_8 rnd = rnd (1 / 10 ^ 8)"

definition lit_0_1 :: "rounding \<Rightarrow> fval" where
  "lit_0_1 rnd = rnd (1 / 10)"

definition lit_0_2 :: "rounding \<Rightarrow> fval" where
  "lit_0_2 rnd = rnd (2 / 10)"

definition lit_0_5 :: "rounding \<Rightarrow> fval" where
  "lit_0_5 rnd = rnd (5 / 10)"

text \<open>
  \<^verbatim>\<open>float(count / total_pixels * 100)\<close>: the integer count and the integer size
  convert to floats exactly (both are far below \<open>2 ^ 53\<close>), then a float division and a
  float multiplication.
\<close>

definition percent_of :: "rounding \<Rightarrow> nat \<Rightarrow> nat \<Rightarrow> fval" where
  "percent_of rnd n tot = fmul rnd (fdiv rnd (Fin (real n)) (Fin (real tot))) (Fin 100)"

section \<open>Band sets and results\<close>

text \<open>
  A band set is a Python dict from band name to raster, in insertion order. The resize
  of OpenCV is not part of the repository: it is a parameter \<open>rs\<close>, called with the
  raster and the target size \<open>(width, height)\<close>, and it may raise.
\<close>

type_synonym bands = "(string \<times> raster) list"

type_synonym resizer = "raster \<Rightarrow> nat \<times> nat \<Rightarrow> py_error + raster"

definition getitem :: "bands \<Rightarrow> string \<Rightarrow> py_error + raster" where
  "getitem b k = (case map_of b k of None \<Rightarrow> Inl (KeyError k) | Some v \<Rightarrow> Inr v)"

text \<open>
  The per-index statistics. \<open>gain\<close> is \<^verbatim>\<open>vegetation_gain\<close>, \<^verbatim>\<open>moisture_gain\<close>
  or \<^verbatim>\<open>urban_expansion\<close>; \<open>loss\<close> is \<^verbatim>\<open>vegetation_loss\<close>, \<^verbatim>\<open>moisture_loss\<close>
  or \<^verbatim>\<open>urban_reduction\<close>. The means and standard deviations of the source are left
  out: no property below reads them, and they are computed after every step that can
  raise.
\<close>

record index_stats =
  max_change :: fval
  min_change :: fval
  gain :: fval
  loss :: fval

record cva_stats =
  no_change_percent :: fval
  moderate_change_percent :: fval
  significant_change_percent :: fval
  max_magnitude :: fval

record statistics =
  ndvi :: index_stats
  ndmi :: index_stats
  ndbi :: index_stats
  cva :: cva_stats

record results =
  ndvi_change :: raster
  ndmi_change :: raster
  ndbi_change :: raster
  cva_magnitude :: raster
  stats :: statistics
  data_source :: string
  bands_used :: string
  warning :: "string option"

section \<open>Change detection on real bands\<close>

text \<open>
  Lines 53 to 59: when the two \<^verbatim>\<open>'nir'\<close> shapes differ, every entry of the second
  dict is rebound, in place, to its raster resized to the first \<^verbatim>\<open>'nir'\<close> shape.
  The dict is the caller's, so the function returns its final state beside the
  outcome. An exception of the resize leaves the entries before it rebound.
\<close>

fun resize_all :: "resizer \<Rightarrow> nat \<times> nat \<Rightarrow> bands \<Rightarrow> py_error option \<times> bands" where
  "resize_all rs dsize [] = (None, [])"
| "resize_all rs dsize ((k, v) # kvs) =
     (case rs v dsize of
        Inl e \<Rightarrow> (Some e, (k, v) # kvs)
      | Inr v' \<Rightarrow> (case resize_all rs dsize kvs of (r, kvs') \<Rightarrow> (r, (k, v') # kvs')))"

definition ensure_same_size :: "resizer \<Rightarrow> bands \<Rightarrow> bands \<Rightarrow> py_error option \<times> bands" where
  "ensure_same_size rs bands1 bands2 =
     (case getitem bands1 ''nir'' of
        Inl e \<Rightarrow> (Some e, bands2)
      | Inr nir1 \<Rightarrow>
          (case getitem bands2 ''nir'' of
             Inl e \<Rightarrow> (Some e, bands2)
           | Inr nir2 \<Rightarrow>
               if shape nir1 \<noteq> shape nir2
               then resize_all rs (ncols nir1, nrows nir1) bands2
               else (None, bands2)))"

text \<open>Lines 62 to 72: the three indices at both times and their differences.\<close>

definition index_changes :: "rounding \<Rightarrow> bands \<Rightarrow> bands \<Rightarrow> py_error + raster \<times> raster \<times> raster" where
  "index_changes rnd bands1 bands2 =
     bindE (getitem bands1 ''nir'') (\<lambda>n1. bindE (getitem bands1 ''red'') (\<lambda>r1.
     bindE (calculate_ndvi rnd n1 r1) (\<lambda>ndvi1.
     bindE (getitem bands2 ''nir'') (\<lambda>n2. bindE (getitem bands2 ''red'') (\<lambda>r2.
     bindE (calculate_ndvi rnd n2 r2) (\<lambda>ndvi2.
     bindE (arr_op (fsub rnd) ndvi2 ndvi1) (\<lambda>dv.
     bindE (getitem bands1 ''nir'') (\<lambda>n1. bindE (getitem bands1 ''swir'') (\<lambda>s1.
     bindE (calculate_ndmi rnd n1 s1) (\<lambda>ndmi1.
     bindE (getitem bands2 ''nir'') (\<lambda>n2. bindE (getitem bands2 ''swir'') (\<lambda>s2.
     bindE (calculate_ndmi rnd n2 s2) (\<lambda>ndmi2.
     bindE (arr_op (fsub rnd) ndmi2 ndmi1) (\<lambda>dm.
     bindE (getitem bands1 ''swir'') (\<lambda>s1. bindE (getitem bands1 ''nir'') (\<lambda>n1.
     bindE (calculate_ndbi rnd s1 n1) (\<lambda>ndbi1.
     bindE (getitem bands2 ''swir'') (\<lambda>s2. bindE (getitem bands2 ''nir'') (\<lambda>n2.
     bindE (calculate_ndbi rnd s2 n2) (\<lambda>ndbi2.
     bindE (arr_op (fsub rnd) ndbi2 ndbi1) (\<lambda>db.
     Inr (dv, dm, db))))))))))))))))))))))"

text \<open>Line 75: \<^verbatim>\<open>np.sqrt(ndvi_change**2 + ndmi_change**2 + ndbi_change**2)\<close>.\<close>

definition fsquare :: "rounding \<Rightarrow> fval \<Rightarrow> fval" where
  "fsquare rnd x = fmul rnd x x"

definition change_vector_magnitude ::
  "rounding \<Rightarrow> raster \<Rightarrow> raster \<Rightarrow> raster \<Rightarrow> py_error + raster" where
  "change_vector_magnitude rnd dv dm db =
     bindE (arr_op (fadd rnd) (arr_map (fsquare rnd) dv) (arr_map (fsquare rnd) dm)) (\<lambda>s.
     bindE (arr_op (fadd rnd) s (arr_map (fsquare rnd) db)) (\<lambda>t.
     Inr (arr_map (fsqrt rnd) t)))"

text \<open>
  Line 76: \<^verbatim>\<open>(m - m.min()) / (m.max() - m.min() + 1e-8)\<close>, the scalars broadcast
  over the raster.
\<close>

definition normalize_cell :: "rounding \<Rightarrow> fval \<Rightarrow> fval \<Rightarrow> fval \<Rightarrow> fval" where
  "normalize_cell rnd lo hi x =
     fdiv rnd (fsub rnd x lo) (fadd rnd (fsub rnd hi lo) (lit_1e_8 rnd))"

definition normalize_magnitude :: "rounding \<Rightarrow> raster \<Rightarrow> py_error + raster" where
  "normalize_magnitude rnd m =
     bindE (raster_min m) (\<lambda>lo.
     bindE (raster_max m) (\<lambda>hi.
     Inr (arr_map (normalize_cell rnd lo hi) m)))"

text \<open>Lines 79 to 82: the three tiers, as counts of pixels.\<close>

definition tier_counts :: "rounding \<Rightarrow> raster \<Rightarrow> nat \<times> nat \<times> nat" where
  "tier_counts rnd n =
     (count_where (\<lambda>x. flt x (lit_0_2 rnd)) n,
      count_where (\<lambda>x. fle (lit_0_2 rnd) x \<and> flt x (lit_0_5 rnd)) n,
      count_where (\<lambda>x. fle (lit_0_5 rnd) x) n)"

text \<open>Lines 90 to 113: the statistics of one change raster.\<close>

definition index_statistics :: "rounding \<Rightarrow> raster \<Rightarrow> nat \<Rightarrow> py_error + index_stats" where
  "index_statistics rnd d tot =
     bindE (raster_max d) (\<lambda>mx.
     bindE (raster_min d) (\<lambda>mn.
     Inr \<lparr>max_change = mx, min_change = mn,
          gain = percent_of rnd (count_where (\<lambda>x. flt (lit_0_1 rnd) x) d) tot,
          loss = percent_of rnd (count_where (\<lambda>x. flt x (fneg (lit_0_1 rnd))) d) tot\<rparr>))"

text \<open>Lines 62 to 126: everything after the resize.\<close>

definition compute_changes :: "rounding \<Rightarrow> bands \<Rightarrow> bands \<Rightarrow> py_error + results" where
  "compute_changes rnd bands1 bands2 =
     bindE (index_changes rnd bands1 bands2) (\<lambda>(dv, dm, db).
     bindE (change_vector_magnitude rnd dv dm db) (\<lambda>mag.
     bindE (normalize_magnitude rnd mag) (\<lambda>cva_normalized.
     (case tier_counts rnd cva_normalized of (no_change, moderate_change, significant_change) \<Rightarrow>
     (let total_pixels = size_of cva_normalized in
     bindE (index_statistics rnd dv total_pixels) (\<lambda>sv.
     bindE (index_statistics rnd dm total_pixels) (\<lambda>sm.
     bindE (index_statistics rnd db total_pixels) (\<lambda>sb.
     bindE (raster_max cva_normalized) (\<lambda>mx.
     Inr \<lparr>ndvi_change = dv, ndmi_change = dm, ndbi_change = db,
          cva_magnitude = cva_normalized,
          stats = \<lparr>ndvi = sv, ndmi = sm, ndbi = sb,
            cva = \<lparr>no_change_percent = percent_of rnd no_change total_pixels,
                   moderate_change_percent = percent_of rnd moderate_change total_pixels,
                   significant_change_percent = percent_of rnd significant_change total_pixels,
                   max_magnitude = mx\<rparr>\<rparr>,
          data_source = ''Real Satellite Bands (Landsat/Sentinel)'',
          bands_used = ''NIR, Red, SWIR (multispectral)'',
          warning = None\<rparr>)))))))))"

definition detect_changes_with_real_bands ::
  "rounding \<Rightarrow> resizer \<Rightarrow> bands \<Rightarrow> bands \<Rightarrow> (py_error + results) \<times> bands" where
  "detect_changes_with_real_bands rnd rs bands1 bands2 =
     (case ensure_same_size rs bands1 bands2 of
        (Some e, bands2') \<Rightarrow> (Inl e, bands2')
      | (None, bands2') \<Rightarrow> (compute_changes rnd bands1 bands2', bands2'))"

section \<open>The legacy path from colour images\<close>

text \<open>
  An image is a two-dimensional array, or a three-dimensional one of shape
  \<open>(height, width, channels)\<close>, held as its channel planes. The colour conversion and
  the resize of OpenCV are parameters (\<open>cvt\<close>, \<open>irs\<close>); both may raise.
\<close>

datatype image = Image2D raster | Image3D nat nat "raster list"

fun image_shape :: "image \<Rightarrow> nat list" where
  "image_shape (Image2D a) = [nrows a, ncols a]"
| "image_shape (Image3D h w chans) = [h, w, length chans]"

type_synonym converter = "image \<Rightarrow> py_error + raster"

type_synonym image_resizer = "image \<Rightarrow> nat \<times> nat \<Rightarrow> py_error + image"

text \<open>\<^verbatim>\<open>image[:, :, k]\<close>.\<close>

definition channel :: "raster list \<Rightarrow> nat \<Rightarrow> py_error + raster" where
  "channel chans k = (if k < length chans then Inr (chans ! k) else Inl IndexError)"

text \<open>\<^verbatim>\<open>np.clip(x, 0, 255)\<close> on one cell.\<close>

fun clip_0_255 :: "fval \<Rightarrow> fval" where
  "clip_0_255 (Fin x) = Fin (min (max x 0) 255)"
| "clip_0_255 PInf = Fin 255"
| "clip_0_255 NInf = Fin 0"
| "clip_0_255 NaN = NaN"

text \<open>
  \<^verbatim>\<open>astype(np.uint8)\<close> on one cell: truncation, modulo 256. The cast of a NaN is
  left to the platform by NumPy; it is taken as 0 here, and cannot occur for an 8-bit image.
\<close>

fun astype_uint8 :: "fval \<Rightarrow> fval" where
  "astype_uint8 (Fin x) = Fin (real_of_int ((if x < 0 then - \<lfloor>- x\<rfloor> else \<lfloor>x\<rfloor>) mod 256))"
| "astype_uint8 v = Fin 0"

definition simulated_bands :: "rounding \<Rightarrow> raster \<Rightarrow> raster \<Rightarrow> raster \<Rightarrow> py_error + bands" where
  "simulated_bands rnd red green blue =
     (let nir = arr_map astype_uint8 (arr_map clip_0_255
                  (arr_map (\<lambda>x. fadd rnd (fmul rnd x (rnd (12 / 10))) (Fin 20)) green)) in
      bindE (arr_op (fadd rnd) (arr_map (\<lambda>x. fmul rnd x (rnd (8 / 10))) red)
                               (arr_map (\<lambda>x. fmul rnd x (rnd (3 / 10))) blue)) (\<lambda>s.
      Inr [(''red'', red), (''green'', green), (''blue'', blue), (''nir'', nir),
           (''swir'', arr_map astype_uint8 (arr_map clip_0_255 s))]))"

fun simulate_bands_from_rgb :: "rounding \<Rightarrow> converter \<Rightarrow> image \<Rightarrow> py_error + bands" where
  "simulate_bands_from_rgb rnd cvt (Image2D gray) = simulated_bands rnd gray gray gray"
| "simulate_bands_from_rgb rnd cvt (Image3D h w chans) =
     bindE (cvt (Image3D h w chans)) (\<lambda>gray.
     bindE (channel chans 0) (\<lambda>red.
     bindE (channel chans 1) (\<lambda>green.
     bindE (channel chans 2) (\<lambda>blue.
     simulated_bands rnd red green blue))))"

text \<open>
  The warning text, as the bytes of the source file: a ten-byte warning sign, then
  plain text.
\<close>

definition warning_text :: string where
  "warning_text =
     [CHR 0xC3, CHR 0xA2, CHR 0xC5, CHR 0xA1, CHR 0xC2, CHR 0xA0, CHR 0xC3, CHR 0xAF,
      CHR 0xC2, CHR 0xB8]
     @ '' Results use simulated bands and may not be scientifically accurate''"

definition detect_changes ::
  "rounding \<Rightarrow> resizer \<Rightarrow> image_resizer \<Rightarrow> converter \<Rightarrow> image \<Rightarrow> image
     \<Rightarrow> py_error + results" where
  "detect_changes rnd rs irs cvt image1 image2 =
     bindE (if image_shape image1 \<noteq> image_shape image2
            then irs image2 (image_shape image1 ! 1, image_shape image1 ! 0)
            else Inr image2) (\<lambda>image2'.
     bindE (simulate_bands_from_rgb rnd cvt image1) (\<lambda>bands1.
     bindE (simulate_bands_from_rgb rnd cvt image2') (\<lambda>bands2.
     bindE (fst (detect_changes_with_real_bands rnd rs bands1 bands2)) (\<lambda>res.
     Inr (res\<lparr>data_source := ''Simulated Bands (Demo Mode - NOT ACCURATE)'',
               bands_used := ''RGB-derived (not real multispectral)'',
               warning := Some warning_text\<rparr>)))))"

section \<open>Assumptions on the rounding\<close>

text \<open>
  What the theorems below ask of the rounding function, where they ask anything.
  \<open>sound_rounding\<close> holds of rounding to nearest in binary64: it is monotone, odd and
  idempotent, exact on the integers up to \<open>2 ^ 53\<close>, and \<open>1e-8\<close> does not round to
  zero. \<open>rel_error u\<close> is the standard model of arithmetic without overflow and
  underflow: every result is finite and within the relative error \<open>u\<close>.
\<close>

definition sound_rounding :: "rounding \<Rightarrow> bool" where
  "sound_rounding rnd \<longleftrightarrow>
     (\<forall>x y. x \<le> y \<longrightarrow> fle (rnd x) (rnd y)) \<and>
     (\<forall>x. rnd (- x) = fneg (rnd x)) \<and>
     (\<forall>x y. rnd x = Fin y \<longrightarrow> rnd y = Fin y) \<and>
     (\<forall>k::int. \<bar>k\<bar> \<le> 2 ^ 53 \<longrightarrow> rnd (of_int k) = Fin (of_int k)) \<and>
     rnd (1 / 10 ^ 8) \<noteq> Fin 0"

definition no_overflow :: "rounding \<Rightarrow> bool" where
  "no_overflow rnd \<longleftrightarrow> (\<forall>x. is_fin (rnd x))"

definition rel_error :: "real \<Rightarrow> rounding \<Rightarrow> bool" where
  "rel_error u rnd \<longleftrightarrow> (\<forall>x. \<exists>y. rnd x = Fin y \<and> \<bar>y - x\<bar> \<le> u * \<bar>x\<bar>)"

text \<open>A nearest-neighbour resize, used as a concrete stand-in for the resize of OpenCV.\<close>

definition nearest_resize :: resizer where
  "nearest_resize a dsize =
     (case dsize of (w, h) \<Rightarrow>
        if w = 0 \<or> h = 0 \<or> size_of a = 0 then Inl CvError
        else Inr (mk_raster h w (\<lambda>i j. cell_at a (i * nrows a div h) (j * ncols a div w))))"

section \<open>Auxiliary definitions\<close>

text \<open>What the three index functions compute at one pixel.\<close>

definition index_cell :: "rounding \<Rightarrow> fval \<Rightarrow> fval \<Rightarrow> fval" where
  "index_cell rnd x y = nan_to_num (fdiv rnd (fsub rnd x y) (fadd rnd x y))"

text \<open>A raster of one row, for concrete examples.\<close>

definition row_raster :: "real list \<Rightarrow> raster" where
  "row_raster vs = \<lparr>nrows = 1, ncols = length vs, cells = map Fin vs\<rparr>"

text \<open>Reading finite cells, and ranges of cells.\<close>

fun the_real :: "fval \<Rightarrow> real" where
  "the_real (Fin x) = x"
| "the_real v = 0"

fun nonneg :: "fval \<Rightarrow> bool" where
  "nonneg (Fin x) = (0 \<le> x)"
| "nonneg v = False"

fun in_range :: "real \<Rightarrow> real \<Rightarrow> fval \<Rightarrow> bool" where
  "in_range lo hi (Fin x) = (lo \<le> x \<and> x \<le> hi)"
| "in_range lo hi v = False"

definition rval :: "rounding \<Rightarrow> real \<Rightarrow> real" where
  "rval rnd x = the_real (rnd x)"

text \<open>
  What the pipeline needs of the rounding for every intermediate value to be finite:
  no overflow, a nonnegative result for a nonnegative argument, and a positive
  denominator in the normalization. Both a sound rounding without overflow and a
  rounding of bounded relative error have it.
\<close>

definition finite_arith :: "rounding \<Rightarrow> bool" where
  "finite_arith rnd \<longleftrightarrow>
     no_overflow rnd \<and> (\<forall>x. 0 \<le> x \<longrightarrow> 0 \<le> rval rnd x) \<and>
     (\<forall>x. 0 \<le> x \<longrightarrow> 0 < rval rnd (x + rval rnd (1 / 10 ^ 8)))"

text \<open>
  A band set in the sense of the data model: the three required bands are present and
  every raster of the mapping has the one shape. Then rasters of one row and band sets
  made of them, for concrete examples.
\<close>

definition row_of :: "fval list \<Rightarrow> raster" where
  "row_of cs = \<lparr>nrows = 1, ncols = length cs, cells = cs\<rparr>"

definition valid_band_set :: "bands \<Rightarrow> nat \<times> nat \<Rightarrow> bool" where
  "valid_band_set b sh \<longleftrightarrow>
     list_all (\<lambda>k. map_of b k \<noteq> None) [''nir'', ''red'', ''swir''] \<and>
     list_all (\<lambda>(k, v). shape v = sh) b"

definition band_set :: "real list \<Rightarrow> real list \<Rightarrow> real list \<Rightarrow> bands" where
  "band_set n r s = [(''nir'', row_raster n), (''red'', row_raster r), (''swir'', row_raster s)]"

text \<open>
  The all-zero raster; the presence of the three required keys; what the resize of
  OpenCV promises (a result of the requested size); and two relations between the
  second band set before and after the resize loop: every entry rebound to its
  resized raster, and every entry either left alone or rebound to it.
\<close>

definition zeros :: "nat \<Rightarrow> nat \<Rightarrow> raster" where
  "zeros r c = mk_raster r c (\<lambda>i j. Fin 0)"

definition has_required_bands :: "bands \<Rightarrow> bool" where
  "has_required_bands b \<longleftrightarrow> list_all (\<lambda>k. map_of b k \<noteq> None) [''nir'', ''red'', ''swir'']"

definition resize_contract :: "resizer \<Rightarrow> bool" where
  "resize_contract rs \<longleftrightarrow> (\<forall>a w h a'. rs a (w, h) = Inr a' \<longrightarrow> shape a' = (h, w))"

definition resized_to :: "resizer \<Rightarrow> nat \<times> nat \<Rightarrow> bands \<Rightarrow> bands \<Rightarrow> bool" where
  "resized_to rs dsize b b' \<longleftrightarrow>
     list_all2 (\<lambda>x y. fst y = fst x \<and> rs (snd x) dsize = Inr (snd y)) b b'"


section \<open>Basic facts about rasters\<close>

lemma bindE_simps [simp]:
  "bindE (Inl e) f = Inl e"
  "bindE (Inr x) f = f x"
  by (simp_all add: bindE_def)

lemma length_concat_rows:
  "length (concat (map (\<lambda>i. map (g i) [0..<c]) [0..<r])) = r * c"
  by (induction r) simp_all

lemma nth_concat_rows:
  "i < r \<Longrightarrow> j < c \<Longrightarrow> concat (map (\<lambda>i. map (g i) [0..<c]) [0..<r]) ! (i * c + j) = g i j"
proof (induction r)
  case 0
  then show ?case by simp
next
  case (Suc r)
  show ?case
  proof (cases "i < r")
    case True
    then have "Suc i \<le> r" by simp
    then have "Suc i * c \<le> r * c" by (rule mult_le_mono1)
    with Suc.prems(2) have "i * c + j < r * c" by simp
    with True Suc show ?thesis
      by (simp add: nth_append length_concat_rows)
  next
    case False
    with Suc.prems have "i = r" by simp
    with Suc.prems show ?thesis
      by (simp add: nth_append length_concat_rows)
  qed
qed


lemma mk_raster_shape [simp]:
  "nrows (mk_raster r c g) = r"
  "ncols (mk_raster r c g) = c"
  by (simp_all add: mk_raster_def)

lemma length_cells_mk_raster [simp]: "length (cells (mk_raster r c g)) = r * c"
  by (simp add: mk_raster_def length_concat_rows)

lemma wf_mk_raster [simp]: "wf_raster (mk_raster r c g)"
  by (simp add: wf_raster_def)

lemma cell_at_mk_raster: "i < r \<Longrightarrow> j < c \<Longrightarrow> cell_at (mk_raster r c g) i j = g i j"
  by (simp add: cell_at_def mk_raster_def nth_concat_rows)

lemma set_cells_mk_raster:
  "set (cells (mk_raster r c g)) = {g i j | i j. i < r \<and> j < c}"
proof -
  have "\<exists>i' j'. g i j = g i' j' \<and> i' < r \<and> j' < c" if "i < r" "j < c" for i j
    using that by (intro exI [of _ i] exI [of _ j]) simp
  then show ?thesis
    by (auto simp: mk_raster_def)
qed

lemma mk_raster_cong:
  assumes "\<And>i j. i < r \<Longrightarrow> j < c \<Longrightarrow> g i j = g' i j"
  shows "mk_raster r c g = mk_raster r c g'"
proof -
  have rows: "map (\<lambda>i. map (g i) [0..<c]) [0..<r] = map (\<lambda>i. map (g' i) [0..<c]) [0..<r]"
    using assms by (simp cong: map_cong)
  show ?thesis by (simp only: mk_raster_def rows)
qed

lemma arr_map_mk_raster: "arr_map f (mk_raster r c g) = mk_raster r c (\<lambda>i j. f (g i j))"
  by (simp add: arr_map_def mk_raster_def map_concat comp_def)

lemma arr_map_simps [simp]:
  "nrows (arr_map f a) = nrows a"
  "ncols (arr_map f a) = ncols a"
  "cells (arr_map f a) = map f (cells a)"
  by (simp_all add: arr_map_def)

lemma shape_arr_map [simp]: "shape (arr_map f a) = shape a"
  by (simp add: shape_def)

lemma shape_mk_raster [simp]: "shape (mk_raster r c g) = (r, c)"
  by (simp add: shape_def)

lemma wf_arr_map [simp]: "wf_raster (arr_map f a) = wf_raster a"
  by (simp add: wf_raster_def)

lemma broadcast_dim_same [simp]: "broadcast_dim n n = Some n"
  by (simp add: broadcast_dim_def)

lemma bcast_at_inside: "i < nrows a \<Longrightarrow> j < ncols a \<Longrightarrow> bcast_at a i j = cell_at a i j"
  by (auto simp: bcast_at_def)

lemma bcast_at_mk_raster: "i < r \<Longrightarrow> j < c \<Longrightarrow> bcast_at (mk_raster r c g) i j = g i j"
  by (simp add: bcast_at_inside cell_at_mk_raster)

lemma arr_op_same_shape:
  assumes "shape a = shape b"
  shows "arr_op f a b = Inr (mk_raster (nrows a) (ncols a) (\<lambda>i j. f (cell_at a i j) (cell_at b i j)))"
proof -
  from assms have eq: "nrows b = nrows a" "ncols b = ncols a"
    by (simp_all add: shape_def)
  have "mk_raster (nrows a) (ncols a) (\<lambda>i j. f (bcast_at a i j) (bcast_at b i j))
      = mk_raster (nrows a) (ncols a) (\<lambda>i j. f (cell_at a i j) (cell_at b i j))"
    by (rule mk_raster_cong) (simp add: bcast_at_inside eq)
  then show ?thesis by (simp add: arr_op_def eq)
qed

lemma arr_op_mk_raster:
  "arr_op f (mk_raster r c g) (mk_raster r c h) = Inr (mk_raster r c (\<lambda>i j. f (g i j) (h i j)))"
proof -
  have "mk_raster r c (\<lambda>i j. f (cell_at (mk_raster r c g) i j) (cell_at (mk_raster r c h) i j))
      = mk_raster r c (\<lambda>i j. f (g i j) (h i j))"
    by (rule mk_raster_cong) (simp add: cell_at_mk_raster)
  then show ?thesis by (simp add: arr_op_same_shape)
qed

subsection \<open>The indices, pixel by pixel\<close>

lemma calculate_ndvi_same_shape:
  assumes "shape a = shape b"
  shows "calculate_ndvi rnd a b
       = Inr (mk_raster (nrows a) (ncols a) (\<lambda>i j. index_cell rnd (cell_at a i j) (cell_at b i j)))"
  by (simp add: calculate_ndvi_def arr_op_same_shape [OF assms] arr_op_mk_raster
      arr_map_mk_raster index_cell_def)

lemma calculate_ndmi_eq: "calculate_ndmi = calculate_ndvi"
  by (intro ext) (simp add: calculate_ndmi_def calculate_ndvi_def)

lemma calculate_ndbi_eq: "calculate_ndbi = calculate_ndvi"
  by (intro ext) (simp add: calculate_ndbi_def calculate_ndvi_def)

lemma is_fin_nan_to_num [simp]: "is_fin (nan_to_num v)"
  by (cases v) simp_all

lemma is_fin_index_cell [simp]: "is_fin (index_cell rnd x y)"
  by (simp add: index_cell_def)

lemma fdiv_zero_not_fin: "\<not> is_fin (fdiv rnd n (Fin 0))"
  by (cases n) (simp_all add: signed_inf_def)

lemma nan_to_num_not_fin: "\<not> is_fin v \<Longrightarrow> nan_to_num v = Fin 0"
  by (cases v) simp_all

lemma index_cell_zero_denominator: "fadd rnd x y = Fin 0 \<Longrightarrow> index_cell rnd x y = Fin 0"
  by (simp add: index_cell_def nan_to_num_not_fin fdiv_zero_not_fin)

subsection \<open>Sound roundings\<close>

lemma sound_rounding_mono: "sound_rounding rnd \<Longrightarrow> x \<le> y \<Longrightarrow> fle (rnd x) (rnd y)"
  by (simp add: sound_rounding_def)

lemma sound_rounding_int: "sound_rounding rnd \<Longrightarrow> \<bar>k\<bar> \<le> 2 ^ 53 \<Longrightarrow> rnd (of_int k) = Fin (of_int k)"
  by (simp add: sound_rounding_def)

lemma sound_rounding_0: "sound_rounding rnd \<Longrightarrow> rnd 0 = Fin 0"
  using sound_rounding_int [of rnd 0] by simp

lemma sound_rounding_1: "sound_rounding rnd \<Longrightarrow> rnd 1 = Fin 1"
  using sound_rounding_int [of rnd 1] by simp

lemma sound_rounding_100: "sound_rounding rnd \<Longrightarrow> rnd 100 = Fin 100"
  using sound_rounding_int [of rnd 100] by simp

lemma sound_rounding_neg: "sound_rounding rnd \<Longrightarrow> rnd (- x) = fneg (rnd x)"
  by (simp add: sound_rounding_def)

lemma sound_rounding_idem: "sound_rounding rnd \<Longrightarrow> rnd x = Fin y \<Longrightarrow> rnd y = Fin y"
  by (auto simp add: sound_rounding_def)

lemma sound_rounding_Fin: "sound_rounding Fin"
  by (simp add: sound_rounding_def)

lemma fle_Fin_left: "fle (Fin x) v \<longleftrightarrow> v = PInf \<or> (\<exists>y. v = Fin y \<and> x \<le> y)"
  by (cases v) simp_all

lemma fle_Fin_right: "fle v (Fin y) \<longleftrightarrow> v = NInf \<or> (\<exists>x. v = Fin x \<and> x \<le> y)"
  by (cases v) simp_all

lemma sound_rounding_between:
  assumes "sound_rounding rnd" "of_int a \<le> x" "x \<le> of_int b" "\<bar>a\<bar> \<le> 2 ^ 53" "\<bar>b\<bar> \<le> 2 ^ 53"
  shows "\<exists>v. rnd x = Fin v \<and> of_int a \<le> v \<and> v \<le> of_int b"
proof -
  have "fle (Fin (of_int a)) (rnd x)"
    using sound_rounding_mono [OF assms(1,2)] sound_rounding_int [OF assms(1,4)] by simp
  moreover have "fle (rnd x) (Fin (of_int b))"
    using sound_rounding_mono [OF assms(1,3)] sound_rounding_int [OF assms(1,5)] by simp
  ultimately show ?thesis
    by (auto simp: fle_Fin_left fle_Fin_right)
qed

lemma index_cell_range:
  assumes sr: "sound_rounding rnd" and x: "0 \<le> x" and y: "0 \<le> y"
  shows "\<exists>v. index_cell rnd (Fin x) (Fin y) = Fin v \<and> - 1 \<le> v \<and> v \<le> 1"
proof -
  let ?n = "rnd (x - y)" and ?d = "rnd (x + y)"
  have nd: "fle ?n ?d" using x y by (intro sound_rounding_mono [OF sr]) simp
  have "fle (rnd (- (x + y))) ?n" using x y by (intro sound_rounding_mono [OF sr]) simp
  moreover have "rnd (- (x + y)) = fneg ?d" by (rule sound_rounding_neg [OF sr])
  ultimately have dn: "fle (fneg ?d) ?n" by (simp only:)
  have "fle (rnd 0) ?d" using x y by (intro sound_rounding_mono [OF sr]) simp
  then have d0: "fle (Fin 0) ?d" by (simp add: sound_rounding_0 [OF sr])
  have ic: "index_cell rnd (Fin x) (Fin y) = nan_to_num (fdiv rnd ?n ?d)"
    by (simp add: index_cell_def fsub_def)
  show ?thesis
  proof (cases ?d)
    case (Fin dv)
    with d0 have dv: "0 \<le> dv" by simp
    from nd dn Fin obtain nv where nv: "?n = Fin nv" "nv \<le> dv" "- dv \<le> nv"
      by (cases ?n) auto
    show ?thesis
    proof (cases "dv = 0")
      case True
      with Fin nv have "index_cell rnd (Fin x) (Fin y) = Fin 0"
        by (simp add: ic signed_inf_def)
      then show ?thesis by simp
    next
      case False
      with dv have "0 < dv" by simp
      with nv have "of_int (- 1) \<le> nv / dv" "nv / dv \<le> of_int 1"
        by (simp_all add: field_simps)
      from sound_rounding_between [OF sr this] obtain v
        where "rnd (nv / dv) = Fin v" "- 1 \<le> v" "v \<le> 1" by auto
      with Fin nv False show ?thesis by (simp add: ic)
    qed
  next
    case PInf
    then have "index_cell rnd (Fin x) (Fin y) = Fin 0"
      by (cases ?n) (simp_all add: ic)
    then show ?thesis by simp
  next
    case NInf
    with d0 show ?thesis by simp
  next
    case NaN
    with d0 show ?thesis by simp
  qed
qed

lemma cell_at_in_set:
  assumes "wf_raster a" "i < nrows a" "j < ncols a"
  shows "cell_at a i j \<in> set (cells a)"
proof -
  from assms(2) have "Suc i \<le> nrows a" by simp
  then have "Suc i * ncols a \<le> nrows a * ncols a" by (rule mult_le_mono1)
  with assms(3) have "i * ncols a + j < nrows a * ncols a" by simp
  with assms(1) show ?thesis by (simp add: cell_at_def wf_raster_def)
qed

lemma nonneg_iff: "nonneg x \<longleftrightarrow> (\<exists>v. x = Fin v \<and> 0 \<le> v)"
  by (cases x) simp_all

lemma in_range_iff: "in_range lo hi x \<longleftrightarrow> (\<exists>v. x = Fin v \<and> lo \<le> v \<and> v \<le> hi)"
  by (cases x) simp_all

section \<open>Minimum and maximum of a raster\<close>

lemma map_Fin_the_real: "list_all is_fin cs \<Longrightarrow> map Fin (map the_real cs) = cs"
proof (induction cs)
  case Nil
  then show ?case by simp
next
  case (Cons c cs)
  then show ?case by (cases c) simp_all
qed

lemma fmin2_Fin [simp]: "fmin2 (Fin x) (Fin y) = Fin (min y x)"
  by (simp add: fmin2_def min_def)

lemma fmax2_Fin [simp]: "fmax2 (Fin x) (Fin y) = Fin (max y x)"
  by (simp add: fmax2_def max_def)

lemma fold_fmin2_Fin: "fold fmin2 (map Fin vs) (Fin v) = Fin (fold min vs v)"
  by (induction vs arbitrary: v) (simp_all add: min.commute)

lemma fold_fmax2_Fin: "fold fmax2 (map Fin vs) (Fin v) = Fin (fold max vs v)"
  by (induction vs arbitrary: v) (simp_all add: max.commute)

lemma raster_min_fin:
  assumes "list_all is_fin (cells a)" "cells a \<noteq> []"
  shows "raster_min a = Inr (Fin (Min (the_real ` set (cells a))))"
proof -
  from assms(2) obtain c cs where cs: "cells a = c # cs" by (cases "cells a") auto
  with assms(1) obtain v where v: "c = Fin v" by (cases c) auto
  from assms(1) cs have "list_all is_fin cs" by simp
  then have m: "map Fin (map the_real cs) = cs" by (rule map_Fin_the_real)
  have s: "set (v # map the_real cs) = the_real ` set (cells a)"
    using cs v by simp
  have "fold fmin2 cs c = fold fmin2 (map Fin (map the_real cs)) (Fin v)"
    by (simp only: m v)
  also have "\<dots> = Fin (fold min (map the_real cs) v)"
    by (rule fold_fmin2_Fin)
  also have "fold min (map the_real cs) v = Min (set (v # map the_real cs))"
    by (simp only: Min.set_eq_fold)
  finally have "fold fmin2 cs c = Fin (Min (the_real ` set (cells a)))"
    by (simp only: s)
  then show ?thesis by (simp add: raster_min_def cs)
qed

lemma raster_max_fin:
  assumes "list_all is_fin (cells a)" "cells a \<noteq> []"
  shows "raster_max a = Inr (Fin (Max (the_real ` set (cells a))))"
proof -
  from assms(2) obtain c cs where cs: "cells a = c # cs" by (cases "cells a") auto
  with assms(1) obtain v where v: "c = Fin v" by (cases c) auto
  from assms(1) cs have "list_all is_fin cs" by simp
  then have m: "map Fin (map the_real cs) = cs" by (rule map_Fin_the_real)
  have s: "set (v # map the_real cs) = the_real ` set (cells a)"
    using cs v by simp
  have "fold fmax2 cs c = fold fmax2 (map Fin (map the_real cs)) (Fin v)"
    by (simp only: m v)
  also have "\<dots> = Fin (fold max (map the_real cs) v)"
    by (rule fold_fmax2_Fin)
  also have "fold max (map the_real cs) v = Max (set (v # map the_real cs))"
    by (simp only: Max.set_eq_fold)
  finally have "fold fmax2 cs c = Fin (Max (the_real ` set (cells a)))"
    by (simp only: s)
  then show ?thesis by (simp add: raster_max_def cs)
qed

lemma raster_min_nonempty: "cells a \<noteq> [] \<Longrightarrow> \<exists>v. raster_min a = Inr v"
  by (cases "cells a") (simp_all add: raster_min_def)

lemma raster_max_nonempty: "cells a \<noteq> [] \<Longrightarrow> \<exists>v. raster_max a = Inr v"
  by (cases "cells a") (simp_all add: raster_max_def)

section \<open>Arithmetic that stays finite\<close>

lemma no_overflow_Fin: "no_overflow rnd \<Longrightarrow> rnd x = Fin (rval rnd x)"
proof -
  assume "no_overflow rnd"
  then have "is_fin (rnd x)" by (simp add: no_overflow_def)
  then show ?thesis by (cases "rnd x") (simp_all add: rval_def)
qed

lemma rel_error_Fin: "rel_error u rnd \<Longrightarrow> rnd x = Fin (rval rnd x)"
  by (metis rel_error_def rval_def the_real.simps(1))

lemma rel_error_bound: "rel_error u rnd \<Longrightarrow> \<bar>rval rnd x - x\<bar> \<le> u * \<bar>x\<bar>"
  by (metis rel_error_def rval_def the_real.simps(1))

lemma rel_error_no_overflow: "rel_error u rnd \<Longrightarrow> no_overflow rnd"
  by (metis no_overflow_def rel_error_def is_fin.simps(1))

lemma rel_error_nonneg:
  assumes "rel_error u rnd" "u \<le> 1" "0 \<le> x"
  shows "0 \<le> rval rnd x"
proof -
  from rel_error_bound [OF assms(1), of x] assms(3)
  have "x - u * x \<le> rval rnd x" by simp
  moreover have "0 \<le> (1 - u) * x" using assms(2,3) by simp
  ultimately show ?thesis by (simp add: algebra_simps)
qed

lemma rel_error_pos:
  assumes "rel_error u rnd" "u < 1" "0 < x"
  shows "0 < rval rnd x"
proof -
  from rel_error_bound [OF assms(1), of x] assms(3)
  have "x - u * x \<le> rval rnd x" by simp
  moreover have "0 < (1 - u) * x" using assms(2,3) by simp
  ultimately show ?thesis by (simp add: algebra_simps)
qed

lemma finite_arith_rel_error:
  assumes "rel_error u rnd" "u < 1"
  shows "finite_arith rnd"
proof -
  have c: "0 < rval rnd (1 / 10 ^ 8)"
    by (rule rel_error_pos [OF assms]) simp
  have "0 < rval rnd (x + rval rnd (1 / 10 ^ 8))" if "0 \<le> x" for x
    using that c by (intro rel_error_pos [OF assms]) simp
  moreover have "0 \<le> rval rnd x" if "0 \<le> x" for x
    using that assms by (intro rel_error_nonneg [OF assms(1)]) simp_all
  ultimately show ?thesis
    using rel_error_no_overflow [OF assms(1)] by (simp add: finite_arith_def)
qed

lemma sound_rval_mono:
  assumes "sound_rounding rnd" "no_overflow rnd" "x \<le> y"
  shows "rval rnd x \<le> rval rnd y"
  using sound_rounding_mono [OF assms(1,3)]
  by (simp add: no_overflow_Fin [OF assms(2)])

lemma sound_rval_0: "sound_rounding rnd \<Longrightarrow> rval rnd 0 = 0"
  by (simp add: rval_def sound_rounding_0)

lemma sound_rval_1: "sound_rounding rnd \<Longrightarrow> rval rnd 1 = 1"
  by (simp add: rval_def sound_rounding_1)

lemma sound_rval_idem:
  assumes "sound_rounding rnd" "no_overflow rnd"
  shows "rval rnd (rval rnd x) = rval rnd x"
proof -
  have "rnd x = Fin (rval rnd x)" by (rule no_overflow_Fin [OF assms(2)])
  then have "rnd (rval rnd x) = Fin (rval rnd x)" by (rule sound_rounding_idem [OF assms(1)])
  then show ?thesis by (simp add: rval_def)
qed

lemma sound_rval_eps:
  assumes "sound_rounding rnd" "no_overflow rnd"
  shows "0 < rval rnd (1 / 10 ^ 8)"
proof -
  have "rval rnd 0 \<le> rval rnd (1 / 10 ^ 8)"
    by (rule sound_rval_mono [OF assms]) simp
  then have "0 \<le> rval rnd (1 / 10 ^ 8)" by (simp add: sound_rval_0 [OF assms(1)])
  moreover have "rnd (1 / 10 ^ 8) \<noteq> Fin 0" using assms(1) by (simp add: sound_rounding_def)
  then have "rval rnd (1 / 10 ^ 8) \<noteq> 0"
    using no_overflow_Fin [OF assms(2), of "1 / 10 ^ 8"] by auto
  ultimately show ?thesis by simp
qed

lemma finite_arith_sound:
  assumes "sound_rounding rnd" "no_overflow rnd"
  shows "finite_arith rnd"
proof -
  let ?c = "rval rnd (1 / 10 ^ 8)"
  have "0 < rval rnd (x + ?c)" if "0 \<le> x" for x
  proof -
    have "rval rnd ?c \<le> rval rnd (x + ?c)"
      using that by (intro sound_rval_mono [OF assms]) simp
    then show ?thesis
      using sound_rval_eps [OF assms] by (simp add: sound_rval_idem [OF assms])
  qed
  moreover have "0 \<le> rval rnd x" if "0 \<le> x" for x
    using sound_rval_mono [OF assms that] by (simp add: sound_rval_0 [OF assms(1)])
  ultimately show ?thesis
    using assms(2) by (simp add: finite_arith_def)
qed

lemma finite_arith_Fin: "finite_arith rnd \<Longrightarrow> rnd x = Fin (rval rnd x)"
  by (simp add: finite_arith_def no_overflow_Fin)

lemma finite_arith_nonneg: "finite_arith rnd \<Longrightarrow> 0 \<le> x \<Longrightarrow> 0 \<le> rval rnd x"
  by (simp add: finite_arith_def)

lemma finite_arith_denominator:
  "finite_arith rnd \<Longrightarrow> 0 \<le> x \<Longrightarrow> 0 < rval rnd (x + rval rnd (1 / 10 ^ 8))"
  by (simp add: finite_arith_def)

section \<open>Broadcasting\<close>

lemma broadcast_dim_left: "broadcast_dim m n = Some R \<Longrightarrow> i < R \<Longrightarrow> (if m = 1 then 0 else i) < m"
  by (auto simp: broadcast_dim_def split: if_splits)

lemma broadcast_dim_right: "broadcast_dim m n = Some R \<Longrightarrow> i < R \<Longrightarrow> (if n = 1 then 0 else i) < n"
  by (auto simp: broadcast_dim_def split: if_splits)

lemma arr_op_Inr:
  assumes "arr_op f a b = Inr c"
  obtains R C where "broadcast_dim (nrows a) (nrows b) = Some R"
    "broadcast_dim (ncols a) (ncols b) = Some C"
    "c = mk_raster R C (\<lambda>i j. f (bcast_at a i j) (bcast_at b i j))"
  using assms by (auto simp: arr_op_def split: option.splits)

lemma arr_op_list_all:
  assumes "arr_op f a b = Inr c" "wf_raster a" "wf_raster b"
    and "list_all P (cells a)" "list_all Q (cells b)"
    and "\<And>x y. P x \<Longrightarrow> Q y \<Longrightarrow> S (f x y)"
  shows "list_all S (cells c)"
proof -
  from assms(1) obtain R C where rc: "broadcast_dim (nrows a) (nrows b) = Some R"
    "broadcast_dim (ncols a) (ncols b) = Some C"
    "c = mk_raster R C (\<lambda>i j. f (bcast_at a i j) (bcast_at b i j))"
    by (rule arr_op_Inr)
  have "S (f (bcast_at a i j) (bcast_at b i j))" if "i < R" "j < C" for i j
  proof -
    have "bcast_at a i j \<in> set (cells a)"
      unfolding bcast_at_def
      by (intro cell_at_in_set assms(2) broadcast_dim_left [OF rc(1) that(1)]
          broadcast_dim_left [OF rc(2) that(2)])
    moreover have "bcast_at b i j \<in> set (cells b)"
      unfolding bcast_at_def
      by (intro cell_at_in_set assms(3) broadcast_dim_right [OF rc(1) that(1)]
          broadcast_dim_right [OF rc(2) that(2)])
    ultimately show ?thesis
      using assms(4,5,6) by (simp add: list_all_iff)
  qed
  then show ?thesis
    by (auto simp: rc(3) set_cells_mk_raster list_all_iff)
qed

lemma arr_op_wf: "arr_op f a b = Inr c \<Longrightarrow> wf_raster c"
  by (erule arr_op_Inr) simp

lemma list_all_arr_map: "list_all P (cells a) \<Longrightarrow> (\<And>x. P x \<Longrightarrow> Q (f x)) \<Longrightarrow> list_all Q (cells (arr_map f a))"
  by (simp add: list_all_iff)

lemma calculate_ndvi_Inr:
  assumes "calculate_ndvi rnd a b = Inr v"
  shows "wf_raster v \<and> list_all is_fin (cells v)"
proof -
  from assms obtain n d q' where "arr_op (fsub rnd) a b = Inr n" "arr_op (fadd rnd) a b = Inr d"
    "arr_op (fdiv rnd) n d = Inr q'" "v = arr_map nan_to_num q'"
    by (auto simp: calculate_ndvi_def bindE_def split: sum.splits)
  then show ?thesis
    by (auto simp: arr_op_wf list_all_iff)
qed

section \<open>The pipeline, step by step\<close>

lemma detect_Inr:
  assumes "fst (detect_changes_with_real_bands rnd rs b1 b2) = Inr res"
  obtains b2' where "ensure_same_size rs b1 b2 = (None, b2')"
    "compute_changes rnd b1 b2' = Inr res"
    "snd (detect_changes_with_real_bands rnd rs b1 b2) = b2'"
  using assms
  by (auto simp: detect_changes_with_real_bands_def split: prod.splits option.splits)

lemma compute_changes_Inr:
  assumes "compute_changes rnd b1 b2 = Inr res"
  obtains dv dm db mag lo hi where
    "index_changes rnd b1 b2 = Inr (dv, dm, db)"
    "change_vector_magnitude rnd dv dm db = Inr mag"
    "raster_min mag = Inr lo" "raster_max mag = Inr hi"
    "ndvi_change res = dv" "ndmi_change res = dm" "ndbi_change res = db"
    "cva_magnitude res = arr_map (normalize_cell rnd lo hi) mag"
    "no_change_percent (cva (stats res))
       = percent_of rnd (fst (tier_counts rnd (cva_magnitude res))) (size_of (cva_magnitude res))"
    "moderate_change_percent (cva (stats res))
       = percent_of rnd (fst (snd (tier_counts rnd (cva_magnitude res)))) (size_of (cva_magnitude res))"
    "significant_change_percent (cva (stats res))
       = percent_of rnd (snd (snd (tier_counts rnd (cva_magnitude res)))) (size_of (cva_magnitude res))"
    "raster_max (cva_magnitude res) = Inr (max_magnitude (cva (stats res)))"
    "data_source res = ''Real Satellite Bands (Landsat/Sentinel)''"
    "warning res = None"
  using assms unfolding compute_changes_def normalize_magnitude_def
  by (auto simp: bindE_def Let_def split: sum.splits prod.splits)

lemma index_changes_Inr:
  assumes "index_changes rnd b1 b2 = Inr (dv, dm, db)"
  obtains v1 v2 m1 m2 u1 u2 n1 r1 s1 n2 r2 s2 where
    "getitem b1 ''nir'' = Inr n1" "getitem b1 ''red'' = Inr r1" "getitem b1 ''swir'' = Inr s1"
    "getitem b2 ''nir'' = Inr n2" "getitem b2 ''red'' = Inr r2" "getitem b2 ''swir'' = Inr s2"
    "calculate_ndvi rnd n1 r1 = Inr v1" "calculate_ndvi rnd n2 r2 = Inr v2"
    "calculate_ndmi rnd n1 s1 = Inr m1" "calculate_ndmi rnd n2 s2 = Inr m2"
    "calculate_ndbi rnd s1 n1 = Inr u1" "calculate_ndbi rnd s2 n2 = Inr u2"
    "arr_op (fsub rnd) v2 v1 = Inr dv" "arr_op (fsub rnd) m2 m1 = Inr dm"
    "arr_op (fsub rnd) u2 u1 = Inr db"
  using assms unfolding index_changes_def
  by (auto simp: bindE_def split: sum.splits)

lemma fsub_fin: "no_overflow rnd \<Longrightarrow> is_fin x \<Longrightarrow> is_fin y \<Longrightarrow> is_fin (fsub rnd x y)"
  by (cases x; cases y) (simp_all add: fsub_def no_overflow_def)

lemma index_changes_fin:
  assumes "index_changes rnd b1 b2 = Inr (dv, dm, db)" "no_overflow rnd"
  shows "wf_raster dv \<and> wf_raster dm \<and> wf_raster db \<and>
         list_all is_fin (cells dv) \<and> list_all is_fin (cells dm) \<and> list_all is_fin (cells db)"
proof -
  from assms(1) obtain v1 v2 m1 m2 u1 u2 n1 r1 s1 n2 r2 s2 where h:
    "calculate_ndvi rnd n1 r1 = Inr v1" "calculate_ndvi rnd n2 r2 = Inr v2"
    "calculate_ndmi rnd n1 s1 = Inr m1" "calculate_ndmi rnd n2 s2 = Inr m2"
    "calculate_ndbi rnd s1 n1 = Inr u1" "calculate_ndbi rnd s2 n2 = Inr u2"
    "arr_op (fsub rnd) v2 v1 = Inr dv" "arr_op (fsub rnd) m2 m1 = Inr dm"
    "arr_op (fsub rnd) u2 u1 = Inr db"
    by (rule index_changes_Inr)
  note c = calculate_ndvi_Inr
  have "list_all is_fin (cells dv)"
    using h(1,2) by (intro arr_op_list_all [OF h(7), of is_fin is_fin] fsub_fin [OF assms(2)])
      (simp_all add: c)
  moreover have "list_all is_fin (cells dm)"
    using h(3,4) by (intro arr_op_list_all [OF h(8), of is_fin is_fin] fsub_fin [OF assms(2)])
      (simp_all add: c calculate_ndmi_eq)
  moreover have "list_all is_fin (cells db)"
    using h(5,6) by (intro arr_op_list_all [OF h(9), of is_fin is_fin] fsub_fin [OF assms(2)])
      (simp_all add: c calculate_ndbi_eq)
  ultimately show ?thesis
    using h(7,8,9) by (simp add: arr_op_wf)
qed

lemma fsquare_nonneg: "finite_arith rnd \<Longrightarrow> is_fin x \<Longrightarrow> nonneg (fsquare rnd x)"
  by (cases x) (simp_all add: fsquare_def finite_arith_Fin finite_arith_nonneg)

lemma fadd_nonneg: "finite_arith rnd \<Longrightarrow> nonneg x \<Longrightarrow> nonneg y \<Longrightarrow> nonneg (fadd rnd x y)"
  by (cases x; cases y) (simp_all add: finite_arith_Fin finite_arith_nonneg)

lemma fsqrt_nonneg: "finite_arith rnd \<Longrightarrow> nonneg x \<Longrightarrow> nonneg (fsqrt rnd x)"
  by (cases x) (simp_all add: finite_arith_Fin finite_arith_nonneg)

lemma nonneg_is_fin: "nonneg x \<Longrightarrow> is_fin x"
  by (cases x) simp_all

lemma magnitude_nonneg:
  assumes "change_vector_magnitude rnd dv dm db = Inr mag" "finite_arith rnd"
    and "wf_raster dv" "wf_raster dm" "wf_raster db"
    and "list_all is_fin (cells dv)" "list_all is_fin (cells dm)" "list_all is_fin (cells db)"
  shows "wf_raster mag \<and> list_all nonneg (cells mag)"
proof -
  from assms(1) obtain s t where h:
    "arr_op (fadd rnd) (arr_map (fsquare rnd) dv) (arr_map (fsquare rnd) dm) = Inr s"
    "arr_op (fadd rnd) s (arr_map (fsquare rnd) db) = Inr t"
    "mag = arr_map (fsqrt rnd) t"
    by (auto simp: change_vector_magnitude_def bindE_def split: sum.splits)
  have sq: "list_all nonneg (map (fsquare rnd) (cells d))" if "list_all is_fin (cells d)" for d
    using that fsquare_nonneg [OF assms(2)] by (auto simp: list_all_iff)
  have s: "list_all nonneg (cells s)"
    by (rule arr_op_list_all [OF h(1), of nonneg nonneg])
      (simp_all add: assms sq fadd_nonneg)
  have t: "list_all nonneg (cells t)"
    by (rule arr_op_list_all [OF h(2), of nonneg nonneg])
      (simp_all add: assms sq s fadd_nonneg arr_op_wf [OF h(1)])
  have "list_all nonneg (cells mag)"
    unfolding h(3) using t by (rule list_all_arr_map) (rule fsqrt_nonneg [OF assms(2)])
  then show ?thesis
    using arr_op_wf [OF h(2)] by (simp add: h(3))
qed

lemma normalize_cell_Fin:
  assumes "finite_arith rnd" "lo \<le> hi"
  shows "normalize_cell rnd (Fin lo) (Fin hi) (Fin v)
       = Fin (rval rnd (rval rnd (v - lo) / rval rnd (rval rnd (hi - lo) + rval rnd (1 / 10 ^ 8))))"
proof -
  have "0 \<le> rval rnd (hi - lo)"
    using assms(2) by (intro finite_arith_nonneg [OF assms(1)]) simp
  then have "0 < rval rnd (rval rnd (hi - lo) + rval rnd (1 / 10 ^ 8))"
    by (rule finite_arith_denominator [OF assms(1)])
  then show ?thesis
    by (simp add: normalize_cell_def fsub_def lit_1e_8_def finite_arith_Fin [OF assms(1)])
qed

lemma the_real_Fin_image: "list_all is_fin cs \<Longrightarrow> x \<in> set cs \<Longrightarrow> x = Fin (the_real x)"
  by (cases x) (auto simp: list_all_iff)

lemma normalized_fin:
  assumes "finite_arith rnd" "list_all is_fin (cells mag)"
    and "raster_min mag = Inr lo" "raster_max mag = Inr hi"
  shows "list_all is_fin (cells (arr_map (normalize_cell rnd lo hi) mag))"
proof -
  from assms(3) have ne: "cells mag \<noteq> []"
    by (auto simp: raster_min_def split: list.splits)
  let ?S = "the_real ` set (cells mag)"
  have lo: "lo = Fin (Min ?S)" using raster_min_fin [OF assms(2) ne] assms(3) by simp
  have hi: "hi = Fin (Max ?S)" using raster_max_fin [OF assms(2) ne] assms(4) by simp
  from ne obtain c where c: "c \<in> set (cells mag)" by (cases "cells mag") auto
  have "Min ?S \<le> the_real c" using c by (intro Min_le) auto
  moreover have "the_real c \<le> Max ?S" using c by (intro Max_ge) auto
  ultimately have "Min ?S \<le> Max ?S" by simp
  then have "is_fin (normalize_cell rnd lo hi x)" if "x \<in> set (cells mag)" for x
    using the_real_Fin_image [OF assms(2) that] normalize_cell_Fin [OF assms(1), of "Min ?S" "Max ?S" "the_real x"]
    by (simp add: lo hi)
  then show ?thesis by (simp add: list_all_iff)
qed

lemma tier_partition:
  assumes "list_all is_fin cs" "a \<le> b"
  shows "length (filter (\<lambda>x. flt x (Fin a)) cs)
       + length (filter (\<lambda>x. fle (Fin a) x \<and> flt x (Fin b)) cs)
       + length (filter (\<lambda>x. fle (Fin b) x) cs) = length cs"
  using assms(1)
proof (induction cs)
  case Nil
  then show ?case by simp
next
  case (Cons c cs)
  then obtain v where "c = Fin v" by (cases c) auto
  with Cons assms(2) show ?case by auto
qed

lemma percent_error_arith:
  fixes p q x u :: real
  assumes "0 \<le> x" "0 \<le> u" "\<bar>q - x\<bar> \<le> u * x" "\<bar>p - q * 100\<bar> \<le> u * \<bar>q * 100\<bar>"
  shows "\<bar>p - 100 * x\<bar> \<le> (2 * u + u\<^sup>2) * (100 * x)"
proof -
  define y where "y = u * x"
  define z where "z = u * y"
  have y: "0 \<le> y" unfolding y_def using assms(1,2) by (rule mult_nonneg_nonneg [OF _ _, rotated -1])
  have a: "q - x \<le> y" "x - q \<le> y"
    using assms(3) by (simp_all add: y_def abs_le_iff)
  then have "q \<le> x + y" "- q \<le> x + y" using assms(1) y by simp_all
  then have "\<bar>q\<bar> \<le> x + y" by (simp add: abs_le_iff)
  then have "u * \<bar>q\<bar> \<le> u * (x + y)" using assms(2) by (rule mult_left_mono)
  also have "u * (x + y) = y + z" by (simp add: y_def z_def algebra_simps)
  finally have "u * \<bar>q * 100\<bar> \<le> 100 * (y + z)" by (simp add: abs_mult)
  with assms(4) have "\<bar>p - q * 100\<bar> \<le> 100 * (y + z)" by simp
  then have b: "p - q * 100 \<le> 100 * (y + z)" "q * 100 - p \<le> 100 * (y + z)"
    by (simp_all add: abs_le_iff)
  have "(2 * u + u\<^sup>2) * (100 * x) = 200 * y + 100 * z"
    by (simp add: y_def z_def algebra_simps power2_eq_square)
  moreover have "p - 100 * x \<le> 200 * y + 100 * z" "100 * x - p \<le> 200 * y + 100 * z"
    using a b by simp_all
  ultimately show ?thesis by (simp add: abs_le_iff)
qed

lemma percent_of_bound:
  assumes re: "rel_error u rnd" and u: "0 \<le> u" and N: "0 < N"
  shows "\<exists>p. percent_of rnd n N = Fin p \<and>
             \<bar>p - 100 * (real n / real N)\<bar> \<le> (2 * u + u\<^sup>2) * (100 * (real n / real N))"
proof -
  let ?x = "real n / real N"
  let ?q = "rval rnd ?x"
  let ?p = "rval rnd (?q * 100)"
  have x: "0 \<le> ?x" by simp
  have a: "\<bar>?q - ?x\<bar> \<le> u * ?x"
    using rel_error_bound [OF re, of ?x] x by simp
  have b: "\<bar>?p - ?q * 100\<bar> \<le> u * \<bar>?q * 100\<bar>"
    by (rule rel_error_bound [OF re])
  have "\<bar>?p - 100 * ?x\<bar> \<le> (2 * u + u\<^sup>2) * (100 * ?x)"
    by (rule percent_error_arith [OF x u a b])
  moreover have "percent_of rnd n N = Fin ?p"
    using N by (simp add: percent_of_def rel_error_Fin [OF re])
  ultimately show ?thesis by blast
qed

lemma wf_size_of: "wf_raster a \<Longrightarrow> length (cells a) = size_of a"
  by (simp add: wf_raster_def size_of_def)

section \<open>Band sets of one shape, and a worked example\<close>

lemma row_raster_row_of: "row_raster vs = row_of (map Fin vs)"
  by (simp add: row_raster_def row_of_def)

lemma row_of_simps [simp]:
  "nrows (row_of cs) = 1" "ncols (row_of cs) = length cs" "cells (row_of cs) = cs"
  by (simp_all add: row_of_def)

lemma mk_raster_row: "mk_raster 1 n g = row_of (map (g 0) [0..<n])"
  by (simp add: mk_raster_def row_of_def)

lemma bcast_at_row: "j < length zs \<Longrightarrow> bcast_at (row_of zs) 0 j = zs ! j"
  by (cases "length zs = 1") (simp_all add: bcast_at_def cell_at_def)

lemma arr_op_row:
  assumes "length xs = length ys"
  shows "arr_op f (row_of xs) (row_of ys) = Inr (row_of (map2 f xs ys))"
proof -
  let ?g = "\<lambda>i j. f (bcast_at (row_of xs) i j) (bcast_at (row_of ys) i j)"
  have m: "map (?g 0) [0..<length xs] = map2 f xs ys"
    using assms by (intro nth_equalityI) (simp_all add: bcast_at_row)
  have "arr_op f (row_of xs) (row_of ys) = Inr (mk_raster 1 (length xs) ?g)"
    using assms by (simp add: arr_op_def)
  also have "mk_raster 1 (length xs) ?g = row_of (map (?g 0) [0..<length xs])"
    by (rule mk_raster_row)
  finally show ?thesis by (simp only: m)
qed

lemma arr_map_row: "arr_map f (row_of xs) = row_of (map f xs)"
  by (simp add: arr_map_def row_of_def)

lemma raster_min_row: "raster_min (row_of (x # xs)) = Inr (fold fmin2 xs x)"
  by (simp add: raster_min_def)

lemma raster_max_row: "raster_max (row_of (x # xs)) = Inr (fold fmax2 xs x)"
  by (simp add: raster_max_def)

lemma calculate_ndvi_row:
  "length xs = length ys \<Longrightarrow>
   calculate_ndvi rnd (row_of xs) (row_of ys) = Inr (row_of (map2 (index_cell rnd) xs ys))"
  by (simp add: calculate_ndvi_def arr_op_row arr_map_row index_cell_def
      list_eq_iff_nth_eq)

lemmas row_eval = row_raster_row_of calculate_ndvi_row calculate_ndmi_eq calculate_ndbi_eq
  arr_op_row arr_map_row raster_min_row raster_max_row getitem_def

lemma ex_index_changes:
  "index_changes Fin (band_set [1, 1] [1, 1] [1, 1]) (band_set [1, 1] [1, 0] [1, 1])
   = Inr (row_raster [0, 1], row_raster [0, 0], row_raster [0, 0])"
  by (simp add: index_changes_def band_set_def row_eval index_cell_def fsub_def)

lemma ex_magnitude:
  "change_vector_magnitude Fin (row_raster [0, 1]) (row_raster [0, 0]) (row_raster [0, 0])
   = Inr (row_raster [0, 1])"
  by (simp add: change_vector_magnitude_def row_eval fsquare_def)

lemma ex_normalize:
  "normalize_magnitude Fin (row_raster [0, 1]) = Inr (row_raster [0, 100000000 / 100000001])"
  by (simp add: normalize_magnitude_def row_eval normalize_cell_def fsub_def lit_1e_8_def)

lemma size_of_row [simp]: "size_of (row_of cs) = length cs"
  by (simp add: size_of_def)


lemma valid_band_set_getitem:
  assumes "valid_band_set b sh" "k \<in> set [''nir'', ''red'', ''swir'']"
  shows "\<exists>v. getitem b k = Inr v \<and> shape v = sh"
proof -
  from assms have "map_of b k \<noteq> None"
    by (auto simp: valid_band_set_def)
  then obtain v where v: "map_of b k = Some v" by auto
  then have "(k, v) \<in> set b" by (rule map_of_SomeD)
  with assms(1) have "shape v = sh" by (auto simp: valid_band_set_def list_all_iff)
  with v show ?thesis by (simp add: getitem_def)
qed

lemma calculate_ndvi_shape:
  assumes "shape a = (r, c)" "shape b = (r, c)"
  shows "calculate_ndvi rnd a b
       = Inr (mk_raster r c (\<lambda>i j. index_cell rnd (cell_at a i j) (cell_at b i j)))"
proof -
  from assms have "shape a = shape b" "nrows a = r" "ncols a = c"
    by (simp_all add: shape_def)
  then show ?thesis by (simp add: calculate_ndvi_same_shape)
qed

lemma index_changes_same_shape:
  assumes "valid_band_set b1 (r, c)" "valid_band_set b2 (r, c)"
  obtains n1 r1 s1 n2 r2 s2 where
    "getitem b1 ''nir'' = Inr n1" "getitem b1 ''red'' = Inr r1" "getitem b1 ''swir'' = Inr s1"
    "getitem b2 ''nir'' = Inr n2" "getitem b2 ''red'' = Inr r2" "getitem b2 ''swir'' = Inr s2"
    "index_changes rnd b1 b2 = Inr
      (mk_raster r c (\<lambda>i j. fsub rnd (index_cell rnd (cell_at n2 i j) (cell_at r2 i j))
                                   (index_cell rnd (cell_at n1 i j) (cell_at r1 i j))),
       mk_raster r c (\<lambda>i j. fsub rnd (index_cell rnd (cell_at n2 i j) (cell_at s2 i j))
                                   (index_cell rnd (cell_at n1 i j) (cell_at s1 i j))),
       mk_raster r c (\<lambda>i j. fsub rnd (index_cell rnd (cell_at s2 i j) (cell_at n2 i j))
                                   (index_cell rnd (cell_at s1 i j) (cell_at n1 i j))))"
proof -
  from valid_band_set_getitem [OF assms(1), of "''nir''"]
  obtain n1 where n1: "getitem b1 ''nir'' = Inr n1" "shape n1 = (r, c)" by auto
  from valid_band_set_getitem [OF assms(1), of "''red''"]
  obtain r1 where r1: "getitem b1 ''red'' = Inr r1" "shape r1 = (r, c)" by auto
  from valid_band_set_getitem [OF assms(1), of "''swir''"]
  obtain s1 where s1: "getitem b1 ''swir'' = Inr s1" "shape s1 = (r, c)" by auto
  from valid_band_set_getitem [OF assms(2), of "''nir''"]
  obtain n2 where n2: "getitem b2 ''nir'' = Inr n2" "shape n2 = (r, c)" by auto
  from valid_band_set_getitem [OF assms(2), of "''red''"]
  obtain r2 where r2: "getitem b2 ''red'' = Inr r2" "shape r2 = (r, c)" by auto
  from valid_band_set_getitem [OF assms(2), of "''swir''"]
  obtain s2 where s2: "getitem b2 ''swir'' = Inr s2" "shape s2 = (r, c)" by auto
  have "index_changes rnd b1 b2 = Inr
      (mk_raster r c (\<lambda>i j. fsub rnd (index_cell rnd (cell_at n2 i j) (cell_at r2 i j))
                                   (index_cell rnd (cell_at n1 i j) (cell_at r1 i j))),
       mk_raster r c (\<lambda>i j. fsub rnd (index_cell rnd (cell_at n2 i j) (cell_at s2 i j))
                                   (index_cell rnd (cell_at n1 i j) (cell_at s1 i j))),
       mk_raster r c (\<lambda>i j. fsub rnd (index_cell rnd (cell_at s2 i j) (cell_at n2 i j))
                                   (index_cell rnd (cell_at s1 i j) (cell_at n1 i j))))"
    unfolding index_changes_def
    by (simp add: n1 r1 s1 n2 r2 s2 calculate_ndmi_eq calculate_ndbi_eq
        calculate_ndvi_shape [OF n1(2) r1(2)] calculate_ndvi_shape [OF n2(2) r2(2)]
        calculate_ndvi_shape [OF n1(2) s1(2)] calculate_ndvi_shape [OF n2(2) s2(2)]
        calculate_ndvi_shape [OF s1(2) n1(2)] calculate_ndvi_shape [OF s2(2) n2(2)]
        arr_op_mk_raster)
  with n1 r1 s1 n2 r2 s2 that show ?thesis by blast
qed

lemma change_vector_magnitude_mk:
  "change_vector_magnitude rnd (mk_raster r c f) (mk_raster r c g) (mk_raster r c h)
   = Inr (mk_raster r c (\<lambda>i j. fsqrt rnd (fadd rnd (fadd rnd (fsquare rnd (f i j))
            (fsquare rnd (g i j))) (fsquare rnd (h i j)))))"
  by (simp add: change_vector_magnitude_def arr_map_mk_raster arr_op_mk_raster)

lemma cells_mk_raster_nonempty: "0 < r * c \<Longrightarrow> cells (mk_raster r c g) \<noteq> []"
  using length_cells_mk_raster [of r c g] by (metis length_greater_0_conv)

lemma index_statistics_nonempty:
  "cells d \<noteq> [] \<Longrightarrow> \<exists>st. index_statistics rnd d tot = Inr st"
  using raster_min_nonempty [of d] raster_max_nonempty [of d]
  by (auto simp: index_statistics_def)

lemma compute_changes_total:
  assumes "valid_band_set b1 (r, c)" "valid_band_set b2 (r, c)" "0 < r * c"
  shows "\<exists>res. compute_changes rnd b1 b2 = Inr res \<and>
           shape (ndvi_change res) = (r, c) \<and> shape (ndmi_change res) = (r, c) \<and>
           shape (ndbi_change res) = (r, c) \<and> shape (cva_magnitude res) = (r, c)"
proof -
  from assms(1,2) obtain fv fm fb where
    ic: "index_changes rnd b1 b2 = Inr (mk_raster r c fv, mk_raster r c fm, mk_raster r c fb)"
    by (rule index_changes_same_shape [where rnd = rnd]) blast
  let ?dv = "mk_raster r c fv" and ?dm = "mk_raster r c fm" and ?db = "mk_raster r c fb"
  obtain g where mg: "change_vector_magnitude rnd ?dv ?dm ?db = Inr (mk_raster r c g)"
    using change_vector_magnitude_mk by blast
  let ?mag = "mk_raster r c g"
  note ne = cells_mk_raster_nonempty [OF assms(3)]
  obtain lo where lo: "raster_min ?mag = Inr lo" using raster_min_nonempty [OF ne] by blast
  obtain hi where hi: "raster_max ?mag = Inr hi" using raster_max_nonempty [OF ne] by blast
  let ?norm = "arr_map (normalize_cell rnd lo hi) ?mag"
  have "cells ?norm \<noteq> []" using ne [of g] by simp
  then obtain mx where mx: "raster_max ?norm = Inr mx" using raster_max_nonempty by blast
  obtain sv where sv: "index_statistics rnd ?dv (size_of ?norm) = Inr sv"
    using index_statistics_nonempty [OF ne] by blast
  obtain sm where sm: "index_statistics rnd ?dm (size_of ?norm) = Inr sm"
    using index_statistics_nonempty [OF ne] by blast
  obtain sb where sb: "index_statistics rnd ?db (size_of ?norm) = Inr sb"
    using index_statistics_nonempty [OF ne] by blast
  show ?thesis
    by (simp add: compute_changes_def ic mg normalize_magnitude_def lo hi mx sv sm sb
        Let_def split: prod.splits)
qed

lemma ensure_same_size_equal:
  assumes "getitem b1 ''nir'' = Inr n1" "getitem b2 ''nir'' = Inr n2" "shape n1 = shape n2"
  shows "ensure_same_size rs b1 b2 = (None, b2)"
  using assms by (simp add: ensure_same_size_def)

lemma detect_same_shape:
  assumes "valid_band_set b1 sh" "valid_band_set b2 sh"
  shows "detect_changes_with_real_bands rnd rs b1 b2 = (compute_changes rnd b1 b2, b2)"
proof -
  from valid_band_set_getitem [OF assms(1), of "''nir''"]
  obtain n1 where n1: "getitem b1 ''nir'' = Inr n1" "shape n1 = sh" by auto
  from valid_band_set_getitem [OF assms(2), of "''nir''"]
  obtain n2 where n2: "getitem b2 ''nir'' = Inr n2" "shape n2 = sh" by auto
  have "ensure_same_size rs b1 b2 = (None, b2)"
    by (rule ensure_same_size_equal [OF n1(1) n2(1)]) (simp add: n1 n2)
  then show ?thesis by (simp add: detect_changes_with_real_bands_def)
qed

lemma valid_band_set_example: "valid_band_set (band_set [a, b] [c, d] [e, f]) (1, 2)"
  by (simp add: valid_band_set_def band_set_def row_raster_def shape_def)

lemma percent_of_exact:
  "0 < N \<Longrightarrow> percent_of Fin n N = Fin (real n / real N * 100)"
  by (simp add: percent_of_def)

lemma ex_detect:
  "\<exists>res. fst (detect_changes_with_real_bands Fin rs
             (band_set [1, 1] [1, 1] [1, 1]) (band_set [1, 1] [1, 0] [1, 1])) = Inr res
     \<and> cva_magnitude res = row_raster [0, 100000000 / 100000001]
     \<and> no_change_percent (cva (stats res)) = Fin 50
     \<and> moderate_change_percent (cva (stats res)) = Fin 0
     \<and> significant_change_percent (cva (stats res)) = Fin 50"
proof -
  let ?b1 = "band_set [1, 1] [1, 1] [1, 1]" and ?b2 = "band_set [1, 1] [1, 0] [1, 1]"
  have v: "valid_band_set ?b1 (1, 2)" "valid_band_set ?b2 (1, 2)"
    by (rule valid_band_set_example)+
  have "0 < (1::nat) * 2" by simp
  from compute_changes_total [OF v this, of Fin]
  obtain res where res: "compute_changes Fin ?b1 ?b2 = Inr res" by blast
  from res obtain dv dm db mag lo hi where h:
    "index_changes Fin ?b1 ?b2 = Inr (dv, dm, db)"
    "change_vector_magnitude Fin dv dm db = Inr mag"
    "raster_min mag = Inr lo" "raster_max mag = Inr hi"
    "cva_magnitude res = arr_map (normalize_cell Fin lo hi) mag"
    "no_change_percent (cva (stats res))
       = percent_of Fin (fst (tier_counts Fin (cva_magnitude res))) (size_of (cva_magnitude res))"
    "moderate_change_percent (cva (stats res))
       = percent_of Fin (fst (snd (tier_counts Fin (cva_magnitude res)))) (size_of (cva_magnitude res))"
    "significant_change_percent (cva (stats res))
       = percent_of Fin (snd (snd (tier_counts Fin (cva_magnitude res)))) (size_of (cva_magnitude res))"
    by (rule compute_changes_Inr)
  have d: "dv = row_raster [0, 1]" "dm = row_raster [0, 0]" "db = row_raster [0, 0]"
    using h(1) unfolding ex_index_changes by auto
  from h(2) have mag: "mag = row_raster [0, 1]" by (simp add: d ex_magnitude)
  from h(3,4) have lohi: "lo = Fin 0" "hi = Fin 1" by (auto simp: mag row_eval)
  have norm: "cva_magnitude res = row_raster [0, 100000000 / 100000001]"
    by (simp add: h(5) mag lohi row_eval normalize_cell_def fsub_def lit_1e_8_def)
  have tc: "tier_counts Fin (row_raster [0, 100000000 / 100000001]) = (1, 0, 1)"
    by (simp add: tier_counts_def count_where_def lit_0_2_def lit_0_5_def row_eval)
  have sz: "size_of (row_raster [0, 100000000 / 100000001]) = 2"
    by (simp add: row_eval)
  have "no_change_percent (cva (stats res)) = Fin 50"
    "moderate_change_percent (cva (stats res)) = Fin 0"
    "significant_change_percent (cva (stats res)) = Fin 50"
    by (simp_all add: h(6,7,8) norm tc sz percent_of_exact)
  with res norm show ?thesis by (simp add: detect_same_shape [OF v])
qed

lemma rel_error_exact: "rel_error 0 Fin"
  by (simp add: rel_error_def)

section \<open>The resize loop and the keys\<close>

lemma resize_all_keys: "map fst (snd (resize_all rs d b)) = map fst b"
  by (induction b) (auto split: sum.splits prod.splits)

lemma resize_all_None:
  "resize_all rs d b = (None, b') \<Longrightarrow> resized_to rs d b b'"
  unfolding resized_to_def
  by (induction b arbitrary: b') (auto split: sum.splits prod.splits)



lemma resize_all_total:
  assumes "list_all (\<lambda>(k, v). \<exists>v'. rs v d = Inr v') b"
  shows "\<exists>b'. resize_all rs d b = (None, b')"
  using assms by (induction b) (auto split: sum.splits prod.splits)

lemma map_of_None_keys: "map fst b' = map fst b \<Longrightarrow> map_of b' k = None \<longleftrightarrow> map_of b k = None"
proof -
  assume "map fst b' = map fst b"
  then have "fst ` set b' = fst ` set b" by (metis set_map)
  then show ?thesis by (simp add: map_of_eq_None_iff)
qed

lemma ensure_same_size_keys: "map fst (snd (ensure_same_size rs b1 b2)) = map fst b2"
  by (auto simp: ensure_same_size_def resize_all_keys split: sum.splits)

lemma detect_keys: "map fst (snd (detect_changes_with_real_bands rnd rs b1 b2)) = map fst b2"
  using ensure_same_size_keys [of rs b1 b2]
  by (auto simp: detect_changes_with_real_bands_def split: prod.splits option.splits)


lemma resized_to_valid:
  assumes "resized_to rs (c, r) b b'" "resize_contract rs" "has_required_bands b"
  shows "valid_band_set b' (r, c)"
proof -
  from assms(1) have keys: "map fst b' = map fst b"
    unfolding resized_to_def
    by (induction b b' rule: list_all2_induct) auto
  from assms(1,2) have "list_all (\<lambda>(k, v). shape v = (r, c)) b'"
    unfolding resized_to_def resize_contract_def
    by (induction b b' rule: list_all2_induct) auto
  moreover have "list_all (\<lambda>k. map_of b' k \<noteq> None) [''nir'', ''red'', ''swir'']"
    using assms(3) by (simp add: has_required_bands_def map_of_None_keys [OF keys])
  ultimately show ?thesis by (simp add: valid_band_set_def)
qed

lemma valid_has_required: "valid_band_set b sh \<Longrightarrow> has_required_bands b"
  by (simp add: valid_band_set_def has_required_bands_def)

lemma getitem_Inr_iff: "(\<exists>v. getitem b k = Inr v) \<longleftrightarrow> map_of b k \<noteq> None"
  by (auto simp: getitem_def split: option.splits)

lemma compute_changes_needs_keys:
  assumes "compute_changes rnd b1 b2 = Inr res"
  shows "has_required_bands b1 \<and> has_required_bands b2"
proof -
  from assms obtain dv dm db where "index_changes rnd b1 b2 = Inr (dv, dm, db)"
    by (rule compute_changes_Inr)
  then obtain n1 r1 s1 n2 r2 s2 where
    "getitem b1 ''nir'' = Inr n1" "getitem b1 ''red'' = Inr r1" "getitem b1 ''swir'' = Inr s1"
    "getitem b2 ''nir'' = Inr n2" "getitem b2 ''red'' = Inr r2" "getitem b2 ''swir'' = Inr s2"
    by (rule index_changes_Inr)
  then show ?thesis
    by (auto simp: has_required_bands_def getitem_def split: option.splits)
qed

section \<open>Extrema by their defining property, and more worked examples\<close>

lemma raster_min_eqI:
  assumes "list_all is_fin (cells a)" "Fin z \<in> set (cells a)"
    and "\<And>x. x \<in> set (cells a) \<Longrightarrow> z \<le> the_real x"
  shows "raster_min a = Inr (Fin z)"
proof -
  from assms(2) have ne: "cells a \<noteq> []" by auto
  have "Min (the_real ` set (cells a)) = z"
  proof (rule Min_eqI)
    show "finite (the_real ` set (cells a))" by simp
    show "z \<le> y" if "y \<in> the_real ` set (cells a)" for y using that assms(3) by auto
    show "z \<in> the_real ` set (cells a)" using assms(2) by force
  qed
  then show ?thesis by (simp add: raster_min_fin [OF assms(1) ne])
qed

lemma raster_max_eqI:
  assumes "list_all is_fin (cells a)" "Fin z \<in> set (cells a)"
    and "\<And>x. x \<in> set (cells a) \<Longrightarrow> the_real x \<le> z"
  shows "raster_max a = Inr (Fin z)"
proof -
  from assms(2) have ne: "cells a \<noteq> []" by auto
  have "Max (the_real ` set (cells a)) = z"
  proof (rule Max_eqI)
    show "finite (the_real ` set (cells a))" by simp
    show "y \<le> z" if "y \<in> the_real ` set (cells a)" for y using that assms(3) by auto
    show "z \<in> the_real ` set (cells a)" using assms(2) by force
  qed
  then show ?thesis by (simp add: raster_max_fin [OF assms(1) ne])
qed

lemma raster_min_max_fin:
  assumes "list_all is_fin (cells a)" "raster_min a = Inr lo" "raster_max a = Inr hi"
  shows "\<exists>m M. lo = Fin m \<and> hi = Fin M \<and> m \<le> M \<and>
    Fin m \<in> set (cells a) \<and> Fin M \<in> set (cells a) \<and>
    (\<forall>x \<in> set (cells a). x = Fin (the_real x) \<and> m \<le> the_real x \<and> the_real x \<le> M)"
proof -
  from assms(2) have ne: "cells a \<noteq> []"
    by (auto simp: raster_min_def split: list.splits)
  let ?S = "the_real ` set (cells a)"
  have S: "finite ?S" "?S \<noteq> {}" using ne by simp_all
  have lo: "lo = Fin (Min ?S)" using raster_min_fin [OF assms(1) ne] assms(2) by simp
  have hi: "hi = Fin (Max ?S)" using raster_max_fin [OF assms(1) ne] assms(3) by simp
  have inS: "Fin y \<in> set (cells a)" if "y \<in> ?S" for y
  proof -
    from that obtain x where x: "x \<in> set (cells a)" "y = the_real x" by auto
    with the_real_Fin_image [OF assms(1) x(1)] show ?thesis by simp
  qed
  have 1: "Fin (Min ?S) \<in> set (cells a)" by (rule inS) (rule Min_in [OF S])
  have 2: "Fin (Max ?S) \<in> set (cells a)" by (rule inS) (rule Max_in [OF S])
  have 3: "x = Fin (the_real x) \<and> Min ?S \<le> the_real x \<and> the_real x \<le> Max ?S"
    if "x \<in> set (cells a)" for x
    using that the_real_Fin_image [OF assms(1) that] by (simp add: S(1))
  from 3 [OF 1] have "Min ?S \<le> Max ?S" by simp
  with lo hi 1 2 3 show ?thesis by blast
qed

lemma mk_raster_1_2: "mk_raster 1 2 g = row_of [g 0 0, g 0 1]"
  by (simp add: mk_raster_def row_of_def eval_nat_numeral)

lemma nearest_resize_row3:
  "nearest_resize (row_raster [a, b, c]) (2, 1) = Inr (row_raster [a, b])"
proof -
  let ?a = "row_raster [a, b, c]"
  have "nearest_resize ?a (2, 1)
      = Inr (mk_raster 1 2 (\<lambda>i j. cell_at ?a (i * nrows ?a div 1) (j * ncols ?a div 2)))"
    by (simp add: nearest_resize_def size_of_def row_raster_def)
  also have "mk_raster 1 2 (\<lambda>i j. cell_at ?a (i * nrows ?a div 1) (j * ncols ?a div 2))
      = row_of [cell_at ?a 0 0, cell_at ?a 0 1]"
    unfolding mk_raster_1_2 by (simp add: row_raster_def)
  also have "\<dots> = row_raster [a, b]"
    by (simp add: cell_at_def row_raster_def row_of_def)
  finally show ?thesis .
qed

lemma nearest_resize_row3':
  "nearest_resize (row_raster [a, b, c]) (2, Suc 0) = Inr (row_raster [a, b])"
  using nearest_resize_row3 [of a b c] by simp

lemma resize_contract_nearest: "resize_contract nearest_resize"
  by (auto simp: resize_contract_def nearest_resize_def split: if_splits)

lemma ex3_ensure:
  "ensure_same_size nearest_resize (band_set [1, 1] [1, 1] [1, 1]) (band_set [1, 2, 3] [4, 5, 6] [7, 8, 9]) = (None, (band_set [1, 2] [4, 5] [7, 8]))"
proof -
  have g: "getitem (band_set [1, 1] [1, 1] [1, 1]) ''nir'' = Inr (row_raster [1, 1])"
    "getitem (band_set [1, 2, 3] [4, 5, 6] [7, 8, 9]) ''nir'' = Inr (row_raster [1, 2, 3])"
    by (simp_all add: getitem_def band_set_def)
  have n: "shape (row_raster [1, 1]) \<noteq> shape (row_raster [1, 2, 3])"
    "ncols (row_raster [1, 1]) = 2" "nrows (row_raster [1, 1]) = 1"
    by (simp_all add: shape_def row_raster_def)
  have r: "resize_all nearest_resize (2, 1) (band_set [1, 2, 3] [4, 5, 6] [7, 8, 9]) = (None, (band_set [1, 2] [4, 5] [7, 8]))"
    by (simp add: band_set_def nearest_resize_row3')
  from r have r': "resize_all nearest_resize (2, Suc 0) (band_set [1, 2, 3] [4, 5, 6] [7, 8, 9])
      = (None, band_set [1, 2] [4, 5] [7, 8])" by simp
  show ?thesis
    by (simp add: ensure_same_size_def g n r')
qed

lemma ex3_valid: "valid_band_set (band_set [1, 2, 3] [4, 5, 6] [7, 8, 9]) (1, 3)"
  by (simp add: valid_band_set_def band_set_def row_raster_def shape_def)

lemma ex3_detect:
  "\<exists>res. detect_changes_with_real_bands Fin nearest_resize (band_set [1, 1] [1, 1] [1, 1]) (band_set [1, 2, 3] [4, 5, 6] [7, 8, 9]) = (Inr res, (band_set [1, 2] [4, 5] [7, 8]))"
proof -
  have v: "valid_band_set (band_set [1, 1] [1, 1] [1, 1]) (1, 2)" "valid_band_set (band_set [1, 2] [4, 5] [7, 8]) (1, 2)"
    by (rule valid_band_set_example)+
  have "0 < (1::nat) * 2" by simp
  from compute_changes_total [OF v this, of Fin]
  obtain res where "compute_changes Fin (band_set [1, 1] [1, 1] [1, 1]) (band_set [1, 2] [4, 5] [7, 8]) = Inr res" by blast
  then show ?thesis
    by (simp add: detect_changes_with_real_bands_def ex3_ensure)
qed

lemma ex_missing_swir:
  "fst (detect_changes_with_real_bands Fin nearest_resize
     [(''nir'', row_raster [1, 1]), (''red'', row_raster [1, 1])] (band_set [1, 1] [1, 1] [1, 1])) = Inl (KeyError ''swir'')"
proof -
  let ?b = "[(''nir'', row_raster [1, 1]), (''red'', row_raster [1, 1])]"
  have "ensure_same_size nearest_resize ?b (band_set [1, 1] [1, 1] [1, 1]) = (None, (band_set [1, 1] [1, 1] [1, 1]))"
    by (simp add: ensure_same_size_def getitem_def band_set_def)
  moreover have "index_changes Fin ?b (band_set [1, 1] [1, 1] [1, 1]) = Inl (KeyError ''swir'')"
    by (simp add: index_changes_def band_set_def row_eval index_cell_def fsub_def)
  ultimately show ?thesis
    by (simp add: detect_changes_with_real_bands_def compute_changes_def)
qed

section \<open>Two identical band sets\<close>

lemma fsub_index_cell_self:
  "sound_rounding rnd \<Longrightarrow> fsub rnd (index_cell rnd x y) (index_cell rnd x y) = Fin 0"
proof -
  assume sr: "sound_rounding rnd"
  obtain v where "index_cell rnd x y = Fin v"
    using is_fin_index_cell [of rnd x y] by (cases "index_cell rnd x y") auto
  then show ?thesis by (simp add: fsub_def sound_rounding_0 [OF sr])
qed

lemma magnitude_of_zero:
  "sound_rounding rnd \<Longrightarrow>
   fsqrt rnd (fadd rnd (fadd rnd (fsquare rnd (Fin 0)) (fsquare rnd (Fin 0))) (fsquare rnd (Fin 0)))
   = Fin 0"
  by (simp add: fsquare_def sound_rounding_0)

lemma fle_PInf_left: "fle PInf v \<longleftrightarrow> v = PInf"
  by (cases v) simp_all

lemma sound_eps_cases:
  assumes "sound_rounding rnd"
  shows "rnd (1 / 10 ^ 8) = PInf \<or> (\<exists>cv. rnd (1 / 10 ^ 8) = Fin cv \<and> 0 < cv)"
proof -
  have "fle (rnd 0) (rnd (1 / 10 ^ 8))"
    by (rule sound_rounding_mono [OF assms]) simp
  then have "fle (Fin 0) (rnd (1 / 10 ^ 8))" by (simp add: sound_rounding_0 [OF assms])
  moreover have "rnd (1 / 10 ^ 8) \<noteq> Fin 0" using assms by (simp add: sound_rounding_def)
  ultimately show ?thesis by (auto simp: fle_Fin_left)
qed

lemma sound_above_eps:
  assumes "sound_rounding rnd" "1 / 10 ^ 8 \<le> x"
  shows "flt (Fin 0) (rnd x) \<and> \<not> fle (rnd x) (Fin 0)"
proof -
  have le: "fle (rnd (1 / 10 ^ 8)) (rnd x)"
    by (rule sound_rounding_mono [OF assms])
  from sound_eps_cases [OF assms(1)] show ?thesis
  proof
    assume "rnd (1 / 10 ^ 8) = PInf"
    with le have "rnd x = PInf" by (simp add: fle_PInf_left)
    then show ?thesis by simp
  next
    assume "\<exists>cv. rnd (1 / 10 ^ 8) = Fin cv \<and> 0 < cv"
    then obtain cv where cv: "rnd (1 / 10 ^ 8) = Fin cv" "0 < cv" by blast
    with le have "rnd x = PInf \<or> (\<exists>y. rnd x = Fin y \<and> cv \<le> y)" by (simp add: fle_Fin_left)
    with cv(2) show ?thesis by auto
  qed
qed

lemma normalize_cell_zero:
  assumes "sound_rounding rnd"
  shows "normalize_cell rnd (Fin 0) (Fin 0) (Fin 0) = Fin 0"
proof -
  note z = sound_rounding_0 [OF assms]
  from sound_eps_cases [OF assms] show ?thesis
  proof
    assume "rnd (1 / 10 ^ 8) = PInf"
    then show ?thesis by (simp add: normalize_cell_def fsub_def lit_1e_8_def z)
  next
    assume "\<exists>cv. rnd (1 / 10 ^ 8) = Fin cv \<and> 0 < cv"
    then obtain cv where cv: "rnd (1 / 10 ^ 8) = Fin cv" "0 < cv" by blast
    from cv(1) have "rnd cv = Fin cv" by (rule sound_rounding_idem [OF assms])
    with cv show ?thesis by (simp add: normalize_cell_def fsub_def lit_1e_8_def z)
  qed
qed

lemma cells_zeros: "x \<in> set (cells (zeros r c)) \<Longrightarrow> x = Fin 0"
  by (auto simp: zeros_def set_cells_mk_raster)

lemma count_where_zeros:
  "count_where p (zeros r c) = (if p (Fin 0) then r * c else 0)"
proof -
  have "filter p (cells (zeros r c)) = (if p (Fin 0) then cells (zeros r c) else [])"
    using cells_zeros [of _ r c] by (auto simp: filter_empty_conv intro!: filter_True)
  then show ?thesis by (simp add: count_where_def zeros_def)
qed

lemma raster_min_zeros: "0 < r * c \<Longrightarrow> raster_min (zeros r c) = Inr (Fin 0)"
proof (rule raster_min_eqI)
  assume pos: "0 < r * c"
  show "list_all is_fin (cells (zeros r c))"
    by (auto simp: list_all_iff dest: cells_zeros)
  from cells_mk_raster_nonempty [OF pos, of "\<lambda>i j. Fin 0"]
  obtain x where "x \<in> set (cells (zeros r c))"
    by (cases "cells (zeros r c)") (auto simp: zeros_def)
  then show "Fin 0 \<in> set (cells (zeros r c))" using cells_zeros by blast
  show "0 \<le> the_real x" if "x \<in> set (cells (zeros r c))" for x
    using cells_zeros [OF that] by simp
qed

lemma raster_max_zeros: "0 < r * c \<Longrightarrow> raster_max (zeros r c) = Inr (Fin 0)"
proof (rule raster_max_eqI)
  assume pos: "0 < r * c"
  show "list_all is_fin (cells (zeros r c))"
    by (auto simp: list_all_iff dest: cells_zeros)
  from cells_mk_raster_nonempty [OF pos, of "\<lambda>i j. Fin 0"]
  obtain x where "x \<in> set (cells (zeros r c))"
    by (cases "cells (zeros r c)") (auto simp: zeros_def)
  then show "Fin 0 \<in> set (cells (zeros r c))" using cells_zeros by blast
  show "the_real x \<le> 0" if "x \<in> set (cells (zeros r c))" for x
    using cells_zeros [OF that] by simp
qed

lemma percent_of_all:
  "sound_rounding rnd \<Longrightarrow> 0 < N \<Longrightarrow> percent_of rnd N N = Fin 100"
  by (simp add: percent_of_def sound_rounding_1 sound_rounding_100)

lemma percent_of_none:
  "sound_rounding rnd \<Longrightarrow> 0 < N \<Longrightarrow> percent_of rnd 0 N = Fin 0"
  by (simp add: percent_of_def sound_rounding_0)

lemma tier_counts_zeros:
  assumes "sound_rounding rnd"
  shows "tier_counts rnd (zeros r c) = (r * c, 0, 0)"
proof -
  have "flt (Fin 0) (lit_0_2 rnd)" "\<not> fle (lit_0_2 rnd) (Fin 0)"
    using sound_above_eps [OF assms, of "2 / 10"] by (simp_all add: lit_0_2_def)
  moreover have "\<not> fle (lit_0_5 rnd) (Fin 0)"
    using sound_above_eps [OF assms, of "5 / 10"] by (simp add: lit_0_5_def)
  ultimately show ?thesis by (simp add: tier_counts_def count_where_zeros)
qed

section \<open>The legacy path\<close>

lemma arr_op_arr_map_same:
  "\<exists>h. arr_op f (arr_map p g) (arr_map q g) = Inr (mk_raster (nrows g) (ncols g) h)"
proof -
  have "shape (arr_map p g) = shape (arr_map q g)" by simp
  from arr_op_same_shape [OF this, of f] show ?thesis by auto
qed

lemma simulated_bands_valid:
  "\<exists>b. simulated_bands rnd g g g = Inr b \<and> valid_band_set b (nrows g, ncols g)"
proof -
  obtain h where s: "arr_op (fadd rnd) (arr_map (\<lambda>x. fmul rnd x (rnd (8 / 10))) g)
      (arr_map (\<lambda>x. fmul rnd x (rnd (3 / 10))) g) = Inr (mk_raster (nrows g) (ncols g) h)"
    using arr_op_arr_map_same by blast
  show ?thesis
    unfolding simulated_bands_def Let_def s bindE_simps
    by (simp add: valid_band_set_def shape_def)
qed

lemma legacy_total_2d:
  assumes "nrows g1 = nrows g2" "ncols g1 = ncols g2" "0 < nrows g1 * ncols g1"
  shows "\<exists>res. detect_changes rnd rs irs cvt (Image2D g1) (Image2D g2) = Inr res"
proof -
  from simulated_bands_valid [of rnd g1] obtain b1
    where b1: "simulated_bands rnd g1 g1 g1 = Inr b1" "valid_band_set b1 (nrows g1, ncols g1)"
    by blast
  from simulated_bands_valid [of rnd g2] obtain b2
    where b2: "simulated_bands rnd g2 g2 g2 = Inr b2" "valid_band_set b2 (nrows g1, ncols g1)"
    using assms by auto
  from compute_changes_total [OF b1(2) b2(2) assms(3), of rnd]
  obtain res where "compute_changes rnd b1 b2 = Inr res" by blast
  then have "fst (detect_changes_with_real_bands rnd rs b1 b2) = Inr res"
    by (simp add: detect_same_shape [OF b1(2) b2(2)])
  then show ?thesis
    using assms by (simp add: detect_changes_def b1 b2)
qed

section \<open>Properties of the index computations\<close>

text \<open>
  C1. On two rasters of equal shape, each of \<open>calculate_ndvi\<close>, \<open>calculate_ndmi\<close>
  and \<open>calculate_ndbi\<close> returns a raster (no exception) of that shape in which every
  cell is finite, neither NaN nor an infinity, and in which the cell is exactly 0 at
  every pixel where the sum of the two bands, as the code computes it, is exactly zero.
  This holds for every rounding function and every cell content, NaN and infinities
  included.
\<close>

theorem index_rasters_have_no_nan_or_inf:
  assumes "shape a = shape b"
  shows "\<exists>r. calculate_ndvi rnd a b = Inr r \<and> calculate_ndmi rnd a b = Inr r \<and>
             calculate_ndbi rnd a b = Inr r \<and> shape r = shape a \<and>
             list_all is_fin (cells r) \<and>
             (\<forall>i < nrows a. \<forall>j < ncols a.
                fadd rnd (cell_at a i j) (cell_at b i j) = Fin 0 \<longrightarrow> cell_at r i j = Fin 0)"
proof -
  let ?r = "mk_raster (nrows a) (ncols a) (\<lambda>i j. index_cell rnd (cell_at a i j) (cell_at b i j))"
  have "calculate_ndvi rnd a b = Inr ?r"
    by (rule calculate_ndvi_same_shape [OF assms])
  moreover have "shape ?r = shape a"
    by (simp add: shape_def)
  moreover have "list_all is_fin (cells ?r)"
    by (auto simp: set_cells_mk_raster list_all_iff)
  moreover have "\<forall>i < nrows a. \<forall>j < ncols a.
      fadd rnd (cell_at a i j) (cell_at b i j) = Fin 0 \<longrightarrow> cell_at ?r i j = Fin 0"
    by (simp add: cell_at_mk_raster index_cell_zero_denominator)
  ultimately show ?thesis
    by (simp add: calculate_ndmi_eq calculate_ndbi_eq)
qed

theorem index_rasters_witness:
  "shape (row_raster [0, 3]) = shape (row_raster [0, 1]) \<and>
   (\<exists>r. calculate_ndvi Fin (row_raster [0, 3]) (row_raster [0, 1]) = Inr r \<and>
        calculate_ndmi Fin (row_raster [0, 3]) (row_raster [0, 1]) = Inr r \<and>
        calculate_ndbi Fin (row_raster [0, 3]) (row_raster [0, 1]) = Inr r \<and>
        r = row_raster [0, 1 / 2] \<and>
        list_all is_fin (cells r) \<and> cell_at r 0 0 = Fin 0)"
proof -
  have h: "shape (row_raster [0, 3]) = shape (row_raster [0, 1])"
    by (simp add: shape_def row_raster_def)
  have v: "calculate_ndvi Fin (row_raster [0, 3]) (row_raster [0, 1]) = Inr (row_raster [0, 1/2])"
    by (simp add: calculate_ndvi_same_shape shape_def row_raster_def mk_raster_def eval_nat_numeral
      cell_at_def index_cell_def fsub_def)
  from index_rasters_have_no_nan_or_inf [OF h, of Fin] v h show ?thesis
    by (auto simp: row_raster_def cell_at_def)
qed

text \<open>
  C6. For two well-formed rasters of equal shape whose cells are all finite and
  nonnegative, \<open>calculate_ndvi\<close> returns a raster of that shape whose cells are all
  finite and lie in \<open>[-1, 1]\<close>. This holds for every sound rounding, also one that
  overflows.
\<close>

theorem ndvi_in_unit_range:
  assumes "sound_rounding rnd" "shape nir = shape red" "wf_raster nir" "wf_raster red"
    and "list_all nonneg (cells nir)" "list_all nonneg (cells red)"
  shows "\<exists>r. calculate_ndvi rnd nir red = Inr r \<and> shape r = shape nir \<and>
             list_all (in_range (- 1) 1) (cells r)"
proof -
  let ?r = "mk_raster (nrows nir) (ncols nir)
              (\<lambda>i j. index_cell rnd (cell_at nir i j) (cell_at red i j))"
  from assms(2) have eq: "nrows red = nrows nir" "ncols red = ncols nir"
    by (simp_all add: shape_def)
  have "in_range (- 1) 1 (index_cell rnd (cell_at nir i j) (cell_at red i j))"
    if "i < nrows nir" "j < ncols nir" for i j
  proof -
    from that assms(3,5) obtain x where x: "cell_at nir i j = Fin x" "0 \<le> x"
      using cell_at_in_set [of nir i j] by (auto simp: nonneg_iff list_all_iff)
    from that assms(4,6) eq obtain y where y: "cell_at red i j = Fin y" "0 \<le> y"
      using cell_at_in_set [of red i j] by (auto simp: nonneg_iff list_all_iff)
    from index_cell_range [OF assms(1) x(2) y(2)] x(1) y(1) show ?thesis
      by (auto simp: in_range_iff)
  qed
  then have "list_all (in_range (- 1) 1) (cells ?r)"
    by (auto simp: set_cells_mk_raster list_all_iff)
  moreover have "calculate_ndvi rnd nir red = Inr ?r"
    by (rule calculate_ndvi_same_shape [OF assms(2)])
  moreover have "shape ?r = shape nir" by (simp add: shape_def)
  ultimately show ?thesis by blast
qed

theorem ndvi_in_unit_range_witness:
  "sound_rounding Fin \<and> shape (row_raster [0, 3]) = shape (row_raster [0, 1]) \<and>
   wf_raster (row_raster [0, 3]) \<and> wf_raster (row_raster [0, 1]) \<and>
   list_all nonneg (cells (row_raster [0, 3])) \<and>
   list_all nonneg (cells (row_raster [0, 1])) \<and>
   (\<exists>r. calculate_ndvi Fin (row_raster [0, 3]) (row_raster [0, 1]) = Inr r \<and>
        shape r = shape (row_raster [0, 3]) \<and> list_all (in_range (- 1) 1) (cells r))"
proof -
  have h1: "shape (row_raster [0, 3]) = shape (row_raster [0, 1])"
    by (simp add: shape_def row_raster_def)
  have h2: "wf_raster (row_raster [0, 3])" "wf_raster (row_raster [0, 1])"
    by (simp_all add: wf_raster_def row_raster_def)
  have h3: "list_all nonneg (cells (row_raster [0, 3]))"
    "list_all nonneg (cells (row_raster [0, 1]))"
    by (simp_all add: row_raster_def)
  from ndvi_in_unit_range [OF sound_rounding_Fin h1 h2 h3] sound_rounding_Fin h1 h2 h3
  show ?thesis by simp
qed

section \<open>Properties of the change detection\<close>

text \<open>
  C9. When one of the keys \<^verbatim>\<open>'nir'\<close>, \<^verbatim>\<open>'red'\<close>, \<^verbatim>\<open>'swir'\<close> is absent from
  either mapping, \<open>detect_changes_with_real_bands\<close> returns no result but an error, for
  every rounding and every resize; when \<^verbatim>\<open>'nir'\<close> is absent from the first mapping the
  error is the KeyError of that key. And the numeric content never makes it raise: on
  two band sets of one shape with at least one pixel it returns a result whatever the
  cells hold, NaN and infinities included.
\<close>

theorem missing_band_key_raises:
  "(\<not> has_required_bands b1 \<or> \<not> has_required_bands b2 \<longrightarrow>
      (\<exists>e. fst (detect_changes_with_real_bands rnd rs b1 b2) = Inl e)) \<and>
   (map_of b1 ''nir'' = None \<longrightarrow>
      fst (detect_changes_with_real_bands rnd rs b1 b2) = Inl (KeyError ''nir'')) \<and>
   (valid_band_set b1 (r, c) \<and> valid_band_set b2 (r, c) \<and> 0 < r * c \<longrightarrow>
      (\<exists>res. fst (detect_changes_with_real_bands rnd rs b1 b2) = Inr res))"
proof (intro conjI impI)
  assume missing: "\<not> has_required_bands b1 \<or> \<not> has_required_bands b2"
  show "\<exists>e. fst (detect_changes_with_real_bands rnd rs b1 b2) = Inl e"
  proof (cases "fst (detect_changes_with_real_bands rnd rs b1 b2)")
    case (Inl e)
    then show ?thesis by simp
  next
    case (Inr res)
    then obtain b2' where cc: "compute_changes rnd b1 b2' = Inr res"
      and b2': "snd (detect_changes_with_real_bands rnd rs b1 b2) = b2'"
      by (rule detect_Inr)
    from compute_changes_needs_keys [OF cc]
    have "has_required_bands b1" "has_required_bands b2'" by simp_all
    moreover have keys: "map fst b2' = map fst b2" using detect_keys [of rnd rs b1 b2] b2' by simp
    ultimately have "has_required_bands b1 \<and> has_required_bands b2"
      by (simp add: has_required_bands_def map_of_None_keys [OF keys])
    with missing show ?thesis by simp
  qed
next
  assume "map_of b1 ''nir'' = None"
  then show "fst (detect_changes_with_real_bands rnd rs b1 b2) = Inl (KeyError ''nir'')"
    by (simp add: detect_changes_with_real_bands_def ensure_same_size_def getitem_def)
next
  assume "valid_band_set b1 (r, c) \<and> valid_band_set b2 (r, c) \<and> 0 < r * c"
  then have v: "valid_band_set b1 (r, c)" "valid_band_set b2 (r, c)" "0 < r * c" by simp_all
  from compute_changes_total [OF v, of rnd] detect_same_shape [OF v(1,2), of rnd rs]
  show "\<exists>res. fst (detect_changes_with_real_bands rnd rs b1 b2) = Inr res" by auto
qed

theorem missing_band_key_raises_witness:
  "\<not> has_required_bands [(''nir'', row_raster [1, 1]), (''red'', row_raster [1, 1])] \<and>
   fst (detect_changes_with_real_bands Fin nearest_resize
     [(''nir'', row_raster [1, 1]), (''red'', row_raster [1, 1])] (band_set [1, 1] [1, 1] [1, 1])) = Inl (KeyError ''swir'') \<and>
   map_of ([] :: bands) ''nir'' = None \<and>
   fst (detect_changes_with_real_bands Fin nearest_resize [] (band_set [1, 1] [1, 1] [1, 1])) = Inl (KeyError ''nir'') \<and>
   valid_band_set [(''nir'', row_of [NaN, PInf]), (''red'', row_of [Fin 1, NInf]),
                   (''swir'', row_of [Fin 0, Fin 0])] (1, 2) \<and>
   valid_band_set (band_set [1, 1] [1, 1] [1, 1]) (1, 2) \<and> (0::nat) < 1 * 2 \<and>
   (\<exists>res. fst (detect_changes_with_real_bands Fin nearest_resize
        [(''nir'', row_of [NaN, PInf]), (''red'', row_of [Fin 1, NInf]),
         (''swir'', row_of [Fin 0, Fin 0])] (band_set [1, 1] [1, 1] [1, 1])) = Inr res)"
proof -
  let ?m = "[(''nir'', row_raster [1, 1]), (''red'', row_raster [1, 1])]"
  let ?n = "[(''nir'', row_of [NaN, PInf]), (''red'', row_of [Fin 1, NInf]),
             (''swir'', row_of [Fin 0, Fin 0])]"
  have m: "\<not> has_required_bands ?m" by (simp add: has_required_bands_def)
  have e: "map_of ([] :: bands) ''nir'' = None" by simp
  have v: "valid_band_set ?n (1, 2)" "valid_band_set (band_set [1, 1] [1, 1] [1, 1]) (1, 2)"
    by (simp_all add: valid_band_set_def band_set_def row_raster_def shape_def)
  have p: "(0::nat) < 1 * 2" by simp
  note t1 = missing_band_key_raises [where ?b1.0 = ?m and ?b2.0 = "band_set [1, 1] [1, 1] [1, 1]" and rnd = Fin
      and rs = nearest_resize and r = 1 and c = 2]
  note t2 = missing_band_key_raises [where ?b1.0 = "[]" and ?b2.0 = "band_set [1, 1] [1, 1] [1, 1]" and rnd = Fin
      and rs = nearest_resize and r = 1 and c = 2]
  note t3 = missing_band_key_raises [where ?b1.0 = ?n and ?b2.0 = "band_set [1, 1] [1, 1] [1, 1]" and rnd = Fin
      and rs = nearest_resize and r = 1 and c = 2]
  from t1 m have "\<exists>e. fst (detect_changes_with_real_bands Fin nearest_resize ?m (band_set [1, 1] [1, 1] [1, 1])) = Inl e"
    by blast
  moreover from t2 e
  have "fst (detect_changes_with_real_bands Fin nearest_resize [] (band_set [1, 1] [1, 1] [1, 1])) = Inl (KeyError ''nir'')"
    by blast
  moreover from t3 v p
  have "\<exists>res. fst (detect_changes_with_real_bands Fin nearest_resize ?n (band_set [1, 1] [1, 1] [1, 1])) = Inr res"
    by blast
  ultimately show ?thesis using m e v p ex_missing_swir by blast
qed

text \<open>
  C10. The shape check reads the two \<^verbatim>\<open>'nir'\<close> rasters only. When their shapes are
  equal nothing is resized, whatever the shapes of the other rasters: the second
  mapping is left as it is and the result is that of the computation on the two
  mappings as given (the resize does not occur in it). When they differ, the loop
  runs over the whole second mapping with the target size taken from the first
  \<^verbatim>\<open>'nir'\<close> raster, and when it completes every entry is rebound to its raster
  resized to that size.
\<close>

theorem shape_check_reads_only_nir:
  assumes "getitem b1 ''nir'' = Inr n1" "getitem b2 ''nir'' = Inr n2"
  shows "(shape n1 = shape n2 \<longrightarrow>
            ensure_same_size rs b1 b2 = (None, b2) \<and>
            detect_changes_with_real_bands rnd rs b1 b2 = (compute_changes rnd b1 b2, b2)) \<and>
         (shape n1 \<noteq> shape n2 \<longrightarrow>
            ensure_same_size rs b1 b2 = resize_all rs (ncols n1, nrows n1) b2 \<and>
            (\<forall>b2'. ensure_same_size rs b1 b2 = (None, b2') \<longrightarrow>
               resized_to rs (ncols n1, nrows n1) b2 b2'))"
  using assms
  by (auto simp: ensure_same_size_def detect_changes_with_real_bands_def
      dest: resize_all_None)

theorem shape_check_reads_only_nir_witness:
  "getitem (band_set [1, 1] [1, 1] [1, 1]) ''nir'' = Inr (row_raster [1, 1]) \<and>
   getitem [(''nir'', row_raster [1, 1]), (''red'', row_raster [1, 2, 3]),
            (''swir'', row_raster [1, 1])] ''nir'' = Inr (row_raster [1, 1]) \<and>
   ensure_same_size nearest_resize (band_set [1, 1] [1, 1] [1, 1])
     [(''nir'', row_raster [1, 1]), (''red'', row_raster [1, 2, 3]), (''swir'', row_raster [1, 1])]
     = (None, [(''nir'', row_raster [1, 1]), (''red'', row_raster [1, 2, 3]),
               (''swir'', row_raster [1, 1])]) \<and>
   getitem (band_set [1, 2, 3] [4, 5, 6] [7, 8, 9]) ''nir'' = Inr (row_raster [1, 2, 3]) \<and>
   shape (row_raster [1, 1]) \<noteq> shape (row_raster [1, 2, 3]) \<and>
   ensure_same_size nearest_resize (band_set [1, 1] [1, 1] [1, 1]) (band_set [1, 2, 3] [4, 5, 6] [7, 8, 9]) = (None, (band_set [1, 2] [4, 5] [7, 8])) \<and>
   resized_to nearest_resize (2, 1) (band_set [1, 2, 3] [4, 5, 6] [7, 8, 9]) (band_set [1, 2] [4, 5] [7, 8])"
proof -
  let ?b = "[(''nir'', row_raster [1, 1]), (''red'', row_raster [1, 2, 3]),
             (''swir'', row_raster [1, 1])]"
  have g: "getitem (band_set [1, 1] [1, 1] [1, 1]) ''nir'' = Inr (row_raster [1, 1])"
    "getitem ?b ''nir'' = Inr (row_raster [1, 1])"
    "getitem (band_set [1, 2, 3] [4, 5, 6] [7, 8, 9]) ''nir'' = Inr (row_raster [1, 2, 3])"
    by (simp_all add: getitem_def band_set_def)
  have ne: "shape (row_raster [1, 1]) \<noteq> shape (row_raster [1, 2, 3])"
    by (simp add: shape_def row_raster_def)
  have d: "ncols (row_raster [1, 1]) = 2" "nrows (row_raster [1, 1]) = 1"
    by (simp_all add: row_raster_def)
  note t1 = shape_check_reads_only_nir [OF g(1,2), of nearest_resize Fin]
  note t2 = shape_check_reads_only_nir [OF g(1,3), of nearest_resize Fin]
  from t1 have "ensure_same_size nearest_resize (band_set [1, 1] [1, 1] [1, 1]) ?b = (None, ?b)" by simp
  moreover from t2 ne ex3_ensure have "resized_to nearest_resize (2, 1) (band_set [1, 2, 3] [4, 5, 6] [7, 8, 9]) (band_set [1, 2] [4, 5] [7, 8])"
    by (simp add: d)
  ultimately show ?thesis using g ne ex3_ensure by simp
qed

text \<open>
  C3. For two band sets in the sense of the data model (each with the three required
  bands and one shape for all its rasters) whose shapes differ, and a resize that
  returns the size it is asked for: when the function returns a result, every raster
  of the second mapping has been resized to the shape of the first, the index
  computation has run on the resized mapping, and the three change rasters and the
  normalized magnitude raster have the shape of the first band set.
\<close>

theorem shape_mismatch_is_resampled:
  assumes "valid_band_set b1 (r, c)" "valid_band_set b2 sh" "sh \<noteq> (r, c)" "resize_contract rs"
    and "detect_changes_with_real_bands rnd rs b1 b2 = (Inr res, b2')"
  shows "resized_to rs (c, r) b2 b2' \<and> valid_band_set b2' (r, c) \<and>
         compute_changes rnd b1 b2' = Inr res \<and>
         shape (ndvi_change res) = (r, c) \<and> shape (ndmi_change res) = (r, c) \<and>
         shape (ndbi_change res) = (r, c) \<and> shape (cva_magnitude res) = (r, c)"
proof -
  from valid_band_set_getitem [OF assms(1), of "''nir''"]
  obtain n1 where n1: "getitem b1 ''nir'' = Inr n1" "shape n1 = (r, c)" by auto
  from valid_band_set_getitem [OF assms(2), of "''nir''"]
  obtain n2 where n2: "getitem b2 ''nir'' = Inr n2" "shape n2 = sh" by auto
  from n1(2) have rc: "nrows n1 = r" "ncols n1 = c" by (simp_all add: shape_def)
  have ess: "ensure_same_size rs b1 b2 = resize_all rs (c, r) b2"
    using n1 n2 assms(3) by (auto simp: ensure_same_size_def rc)
  from assms(5) have ok: "resize_all rs (c, r) b2 = (None, b2')"
    and cc: "compute_changes rnd b1 b2' = Inr res"
    by (auto simp: detect_changes_with_real_bands_def ess split: prod.splits option.splits)
  have rt: "resized_to rs (c, r) b2 b2'" by (rule resize_all_None [OF ok])
  have v2: "valid_band_set b2' (r, c)"
    by (rule resized_to_valid [OF rt assms(4) valid_has_required [OF assms(2)]])
  have pos: "0 < r * c"
  proof (rule ccontr)
    assume "\<not> 0 < r * c"
    then have z: "r * c = 0" by simp
    from assms(1) v2 obtain fv fm fb where
      ic: "index_changes rnd b1 b2' = Inr (mk_raster r c fv, mk_raster r c fm, mk_raster r c fb)"
      by (rule index_changes_same_shape [where rnd = rnd]) blast
    from cc obtain dv dm db mag lo where h: "index_changes rnd b1 b2' = Inr (dv, dm, db)"
      "change_vector_magnitude rnd dv dm db = Inr mag" "raster_min mag = Inr lo"
      by (rule compute_changes_Inr)
    from h(1,2) have "mag = mk_raster r c (\<lambda>i j. fsqrt rnd (fadd rnd (fadd rnd
        (fsquare rnd (fv i j)) (fsquare rnd (fm i j))) (fsquare rnd (fb i j))))"
      unfolding ic by (auto simp: change_vector_magnitude_mk)
    then have "length (cells mag) = 0" using z by simp
    with h(3) show False by (simp add: raster_min_def)
  qed
  from compute_changes_total [OF assms(1) v2 pos, of rnd] cc
  have "shape (ndvi_change res) = (r, c) \<and> shape (ndmi_change res) = (r, c) \<and>
        shape (ndbi_change res) = (r, c) \<and> shape (cva_magnitude res) = (r, c)" by auto
  with rt v2 cc show ?thesis by simp
qed

theorem shape_mismatch_is_resampled_witness:
  "valid_band_set (band_set [1, 1] [1, 1] [1, 1]) (1, 2) \<and> valid_band_set (band_set [1, 2, 3] [4, 5, 6] [7, 8, 9]) (1, 3) \<and>
   resize_contract nearest_resize \<and>
   (\<exists>res. detect_changes_with_real_bands Fin nearest_resize (band_set [1, 1] [1, 1] [1, 1]) (band_set [1, 2, 3] [4, 5, 6] [7, 8, 9]) = (Inr res, (band_set [1, 2] [4, 5] [7, 8])) \<and>
      resized_to nearest_resize (2, 1) (band_set [1, 2, 3] [4, 5, 6] [7, 8, 9]) (band_set [1, 2] [4, 5] [7, 8]) \<and> valid_band_set (band_set [1, 2] [4, 5] [7, 8]) (1, 2) \<and>
      compute_changes Fin (band_set [1, 1] [1, 1] [1, 1]) (band_set [1, 2] [4, 5] [7, 8]) = Inr res \<and>
      shape (ndvi_change res) = (1, 2) \<and> shape (ndmi_change res) = (1, 2) \<and>
      shape (ndbi_change res) = (1, 2) \<and> shape (cva_magnitude res) = (1, 2))"
proof -
  have v: "valid_band_set (band_set [1, 1] [1, 1] [1, 1]) (1, 2)" by (rule valid_band_set_example)
  have ne: "((1::nat), (3::nat)) \<noteq> (1, 2)" by simp
  from ex3_detect obtain res where
    res: "detect_changes_with_real_bands Fin nearest_resize (band_set [1, 1] [1, 1] [1, 1]) (band_set [1, 2, 3] [4, 5, 6] [7, 8, 9]) = (Inr res, (band_set [1, 2] [4, 5] [7, 8]))" by blast
  note t = shape_mismatch_is_resampled [OF v ex3_valid ne resize_contract_nearest res]
  from t res v ex3_valid resize_contract_nearest show ?thesis by blast
qed




text \<open>
  C7. For a band set in the sense of the data model (the three required bands, one
  shape, at least one pixel), whatever its cells hold, and for every sound rounding:
  the call with that band set at both times returns a result and leaves the mapping as
  it is; the three change rasters and the normalized magnitude raster are all zero,
  \<^verbatim>\<open>no_change_percent\<close> is 100 and the other two percentages are 0.
\<close>

theorem identical_band_sets_show_no_change:
  assumes sr: "sound_rounding rnd" and v: "valid_band_set b (r, c)" and pos: "0 < r * c"
  shows "\<exists>res. detect_changes_with_real_bands rnd rs b b = (Inr res, b) \<and>
           ndvi_change res = zeros r c \<and> ndmi_change res = zeros r c \<and>
           ndbi_change res = zeros r c \<and> cva_magnitude res = zeros r c \<and>
           no_change_percent (cva (stats res)) = Fin 100 \<and>
           moderate_change_percent (cva (stats res)) = Fin 0 \<and>
           significant_change_percent (cva (stats res)) = Fin 0"
proof -
  from compute_changes_total [OF v v pos, of rnd]
  obtain res where res: "compute_changes rnd b b = Inr res" by blast
  from res obtain dv dm db mag lo hi where h:
    "index_changes rnd b b = Inr (dv, dm, db)"
    "change_vector_magnitude rnd dv dm db = Inr mag"
    "raster_min mag = Inr lo" "raster_max mag = Inr hi"
    "ndvi_change res = dv" "ndmi_change res = dm" "ndbi_change res = db"
    "cva_magnitude res = arr_map (normalize_cell rnd lo hi) mag"
    "no_change_percent (cva (stats res))
       = percent_of rnd (fst (tier_counts rnd (cva_magnitude res))) (size_of (cva_magnitude res))"
    "moderate_change_percent (cva (stats res))
       = percent_of rnd (fst (snd (tier_counts rnd (cva_magnitude res)))) (size_of (cva_magnitude res))"
    "significant_change_percent (cva (stats res))
       = percent_of rnd (snd (snd (tier_counts rnd (cva_magnitude res)))) (size_of (cva_magnitude res))"
    by (rule compute_changes_Inr)
  from v v obtain n1 r1 s1 n2 r2 s2 where g:
    "getitem b ''nir'' = Inr n1" "getitem b ''red'' = Inr r1" "getitem b ''swir'' = Inr s1"
    "getitem b ''nir'' = Inr n2" "getitem b ''red'' = Inr r2" "getitem b ''swir'' = Inr s2"
    and ic: "index_changes rnd b b = Inr
      (mk_raster r c (\<lambda>i j. fsub rnd (index_cell rnd (cell_at n2 i j) (cell_at r2 i j))
                                   (index_cell rnd (cell_at n1 i j) (cell_at r1 i j))),
       mk_raster r c (\<lambda>i j. fsub rnd (index_cell rnd (cell_at n2 i j) (cell_at s2 i j))
                                   (index_cell rnd (cell_at n1 i j) (cell_at s1 i j))),
       mk_raster r c (\<lambda>i j. fsub rnd (index_cell rnd (cell_at s2 i j) (cell_at n2 i j))
                                   (index_cell rnd (cell_at s1 i j) (cell_at n1 i j))))"
    by (rule index_changes_same_shape [where rnd = rnd])
  from g have same: "n2 = n1" "r2 = r1" "s2 = s1" by simp_all
  from ic have "index_changes rnd b b = Inr (zeros r c, zeros r c, zeros r c)"
    by (simp add: same fsub_index_cell_self [OF sr] zeros_def)
  with h(1) have d: "dv = zeros r c" "dm = zeros r c" "db = zeros r c" by auto
  have "change_vector_magnitude rnd (zeros r c) (zeros r c) (zeros r c) = Inr (zeros r c)"
    by (simp add: zeros_def change_vector_magnitude_mk magnitude_of_zero [OF sr])
  with h(2) have mag: "mag = zeros r c" by (simp add: d)
  from h(3,4) have lohi: "lo = Fin 0" "hi = Fin 0"
    by (simp_all add: mag raster_min_zeros [OF pos] raster_max_zeros [OF pos])
  have nrm: "cva_magnitude res = zeros r c"
    by (simp add: h(8) mag lohi zeros_def arr_map_mk_raster normalize_cell_zero [OF sr])
  have sz: "size_of (zeros r c) = r * c" by (simp add: size_of_def zeros_def)
  have "no_change_percent (cva (stats res)) = Fin 100"
    "moderate_change_percent (cva (stats res)) = Fin 0"
    "significant_change_percent (cva (stats res)) = Fin 0"
    using pos
    by (simp_all add: h(9,10,11) nrm tier_counts_zeros [OF sr] sz
        percent_of_all [OF sr] percent_of_none [OF sr])
  with res d h(5,6,7) nrm show ?thesis
    by (simp add: detect_same_shape [OF v v])
qed

theorem identical_band_sets_witness:
  "sound_rounding Fin \<and> valid_band_set (band_set [3, 0] [1, 0] [2, 5]) (1, 2) \<and> (0::nat) < 1 * 2 \<and>
   (\<exists>res. detect_changes_with_real_bands Fin nearest_resize (band_set [3, 0] [1, 0] [2, 5])
             (band_set [3, 0] [1, 0] [2, 5]) = (Inr res, band_set [3, 0] [1, 0] [2, 5]) \<and>
           ndvi_change res = row_raster [0, 0] \<and> ndmi_change res = row_raster [0, 0] \<and>
           ndbi_change res = row_raster [0, 0] \<and> cva_magnitude res = row_raster [0, 0] \<and>
           no_change_percent (cva (stats res)) = Fin 100 \<and>
           moderate_change_percent (cva (stats res)) = Fin 0 \<and>
           significant_change_percent (cva (stats res)) = Fin 0)"
proof -
  have v: "valid_band_set (band_set [3, 0] [1, 0] [2, 5]) (1, 2)"
    by (rule valid_band_set_example)
  have p: "(0::nat) < 1 * 2" by simp
  have z: "zeros 1 2 = row_raster [0, 0]"
    unfolding zeros_def mk_raster_1_2 by (simp add: row_raster_row_of)
  note t = identical_band_sets_show_no_change [OF sound_rounding_Fin v p, of nearest_resize]
  from t [unfolded z] v p sound_rounding_Fin show ?thesis by blast
qed

text \<open>
  C8. Every result of the legacy path \<open>detect_changes\<close> carries the provenance
  \<^verbatim>\<open>'Simulated Bands (Demo Mode - NOT ACCURATE)'\<close>, the band description of the
  simulation and the warning text, which is not empty; every result of
  \<open>detect_changes_with_real_bands\<close> has no warning entry and the provenance
  \<^verbatim>\<open>'Real Satellite Bands (Landsat/Sentinel)'\<close>. The legacy path does return a
  result on any two two-dimensional images of one shape with at least one pixel (for
  three-dimensional images that depends on the colour conversion of OpenCV).
\<close>

theorem legacy_results_are_tagged:
  "(detect_changes rnd rs irs cvt image1 image2 = Inr res \<longrightarrow>
      data_source res = ''Simulated Bands (Demo Mode - NOT ACCURATE)'' \<and>
      bands_used res = ''RGB-derived (not real multispectral)'' \<and>
      warning res = Some warning_text \<and> warning_text \<noteq> []) \<and>
   (fst (detect_changes_with_real_bands rnd rs b1 b2) = Inr res' \<longrightarrow>
      warning res' = None \<and> data_source res' = ''Real Satellite Bands (Landsat/Sentinel)'') \<and>
   (nrows g1 = nrows g2 \<and> ncols g1 = ncols g2 \<and> 0 < nrows g1 * ncols g1 \<longrightarrow>
      (\<exists>r. detect_changes rnd rs irs cvt (Image2D g1) (Image2D g2) = Inr r))"
proof (intro conjI impI)
  assume "detect_changes rnd rs irs cvt image1 image2 = Inr res"
  then obtain r0 where "res = r0\<lparr>data_source := ''Simulated Bands (Demo Mode - NOT ACCURATE)'',
      bands_used := ''RGB-derived (not real multispectral)'', warning := Some warning_text\<rparr>"
    unfolding detect_changes_def by (auto simp: bindE_def split: sum.splits)
  then show "data_source res = ''Simulated Bands (Demo Mode - NOT ACCURATE)''"
    "bands_used res = ''RGB-derived (not real multispectral)''"
    "warning res = Some warning_text" by simp_all
  show "warning_text \<noteq> []" by (simp add: warning_text_def)
next
  assume "fst (detect_changes_with_real_bands rnd rs b1 b2) = Inr res'"
  then obtain b2' where "compute_changes rnd b1 b2' = Inr res'" by (rule detect_Inr)
  then obtain dv where "data_source res' = ''Real Satellite Bands (Landsat/Sentinel)''"
    "warning res' = None" by (rule compute_changes_Inr)
  then show "warning res' = None"
    "data_source res' = ''Real Satellite Bands (Landsat/Sentinel)''" by simp_all
next
  assume "nrows g1 = nrows g2 \<and> ncols g1 = ncols g2 \<and> 0 < nrows g1 * ncols g1"
  then show "\<exists>r. detect_changes rnd rs irs cvt (Image2D g1) (Image2D g2) = Inr r"
    using legacy_total_2d by blast
qed

theorem legacy_results_witness:
  "nrows (row_raster [10, 200]) = nrows (row_raster [30, 40]) \<and>
   ncols (row_raster [10, 200]) = ncols (row_raster [30, 40]) \<and>
   0 < nrows (row_raster [10, 200]) * ncols (row_raster [10, 200]) \<and>
   (\<exists>res. detect_changes Fin nearest_resize (\<lambda>i d. Inl CvError) (\<lambda>i. Inl CvError)
             (Image2D (row_raster [10, 200])) (Image2D (row_raster [30, 40])) = Inr res \<and>
           data_source res = ''Simulated Bands (Demo Mode - NOT ACCURATE)'' \<and>
           bands_used res = ''RGB-derived (not real multispectral)'' \<and>
           warning res = Some warning_text \<and> warning_text \<noteq> []) \<and>
   (\<exists>res'. fst (detect_changes_with_real_bands Fin nearest_resize
              (band_set [1, 1] [1, 1] [1, 1]) (band_set [1, 1] [1, 0] [1, 1])) = Inr res' \<and>
            warning res' = None \<and> data_source res' = ''Real Satellite Bands (Landsat/Sentinel)'')"
proof -
  let ?g1 = "row_raster [10, 200]" and ?g2 = "row_raster [30, 40]"
  let ?irs = "\<lambda>(i::image) (d::nat \<times> nat). (Inl CvError :: py_error + image)"
  let ?cvt = "\<lambda>(i::image). (Inl CvError :: py_error + raster)"
  have h: "nrows ?g1 = nrows ?g2" "ncols ?g1 = ncols ?g2" "0 < nrows ?g1 * ncols ?g1"
    by (simp_all add: row_raster_def)
  from ex_detect [of nearest_resize] obtain res' where r':
    "fst (detect_changes_with_real_bands Fin nearest_resize
       (band_set [1, 1] [1, 1] [1, 1]) (band_set [1, 1] [1, 0] [1, 1])) = Inr res'" by blast
  note t = legacy_results_are_tagged [of Fin nearest_resize ?irs ?cvt "Image2D ?g1" "Image2D ?g2"
      _ "band_set [1, 1] [1, 1] [1, 1]" "band_set [1, 1] [1, 0] [1, 1]" res' ?g1 ?g2]
  from t h obtain res where res:
    "detect_changes Fin nearest_resize ?irs ?cvt (Image2D ?g1) (Image2D ?g2) = Inr res"
    by blast
  note t2 = t [of res]
  from t2 res r' h show ?thesis by blast
qed

end
